theory Spec2Isabelle
  imports Complex_Main "HOL-Library.Product_Lexorder" "HOL-Library.Multiset"
begin

unbundle bit_operations_syntax

section \<open>Python values used by the extractor\<close>

text \<open>
  A Python \<open>str\<close> is modelled as a \<open>string\<close>, each \<open>char\<close> standing for the code
  point of the same number (so the model covers the code points below 256).
  Python's \<open>float\<close> is modelled by \<open>rat\<close> with exact arithmetic: every number the
  extractor computes is a difference, a half, a product or a quotient of its inputs, and
  rounding is not modelled.
\<close>

datatype exn = ValueError string | KeyError string | LibraryError string

definition is_space :: "char \<Rightarrow> bool" where
  \<comment> \<open>the characters \<open>str.strip()\<close> removes and \<open>\s\<close> matches\<close>
  "is_space c =
     (let n = (of_char c :: nat)
      in (9 \<le> n \<and> n \<le> 13) \<or> (28 \<le> n \<and> n \<le> 32) \<or> n = 133 \<or> n = 160)"

definition is_digit :: "char \<Rightarrow> bool" where
  \<comment> \<open>the characters \<open>\d\<close> matches\<close>
  "is_digit c = (let n = (of_char c :: nat) in 48 \<le> n \<and> n \<le> 57)"

definition char_isupper :: "char \<Rightarrow> bool" where
  "char_isupper c =
     (let n = (of_char c :: nat)
      in (65 \<le> n \<and> n \<le> 90) \<or> (192 \<le> n \<and> n \<le> 214) \<or> (216 \<le> n \<and> n \<le> 222))"

definition char_islower :: "char \<Rightarrow> bool" where
  "char_islower c =
     (let n = (of_char c :: nat)
      in (97 \<le> n \<and> n \<le> 122) \<or> n = 170 \<or> n = 181 \<or> n = 186
         \<or> (223 \<le> n \<and> n \<le> 246) \<or> (248 \<le> n \<and> n \<le> 255))"

definition char_lower :: "char \<Rightarrow> char" where
  "char_lower c = (if char_isupper c then char_of (of_char c + (32 :: nat)) else c)"

definition lower :: "string \<Rightarrow> string" where
  \<comment> \<open>\<open>str.lower()\<close>\<close>
  "lower s = map char_lower s"

definition isupper :: "string \<Rightarrow> bool" where
  \<comment> \<open>\<open>str.isupper()\<close>: no lowercase character and at least one uppercase one\<close>
  "isupper s = (list_all (\<lambda>c. \<not> char_islower c) s \<and> list_ex char_isupper s)"

definition strip :: "string \<Rightarrow> string" where
  \<comment> \<open>\<open>str.strip()\<close>\<close>
  "strip s = rev (dropWhile is_space (rev (dropWhile is_space s)))"

fun py_in :: "string \<Rightarrow> string \<Rightarrow> bool" where
  \<comment> \<open>\<open>sub in s\<close> on strings\<close>
  "py_in sub [] = (sub = [])"
| "py_in sub (c # cs) = (take (length sub) (c # cs) = sub \<or> py_in sub cs)"

fun split_on :: "char \<Rightarrow> string \<Rightarrow> string list" where
  \<comment> \<open>\<open>s.split(sep)\<close> for a separator of one character\<close>
  "split_on sep [] = [[]]"
| "split_on sep (c # cs) =
     (if c = sep then [] # split_on sep cs
      else (case split_on sep cs of [] \<Rightarrow> [[c]] | w # ws \<Rightarrow> (c # w) # ws))"

definition py_sorted_reverse :: "('a \<Rightarrow> 'k::linorder) \<Rightarrow> 'a list \<Rightarrow> 'a list" where
  \<comment> \<open>\<open>sorted(xs, key=f, reverse=True)\<close> and \<open>xs.sort(key=f, reverse=True)\<close>: the list is
     reversed, sorted stably by ascending key, and reversed again\<close>
  "py_sorted_reverse f xs = rev (sort_key f (rev xs))"

section \<open>Data model\<close>

record span =
  span_text :: string
  span_size :: rat
  span_font :: string
  span_flags :: int
  span_bbox :: "rat \<times> rat \<times> rat \<times> rat"

text \<open>A line is the list of its spans; a block has lines or (an image block) has none.\<close>

type_synonym line = "span list"
type_synonym block = "line list option"

text \<open>
  What the rendering and the recognition of one page give: \<open>RenderFails\<close> when
  \<open>get_pixmap\<close> or \<open>Image.frombytes\<close> raises (outside the \<open>try\<close>), \<open>OcrFails\<close>
  when \<open>image_to_string\<close> raises (inside the \<open>try\<close>), \<open>OcrText\<close> with the recognised
  text otherwise.
\<close>

datatype ocr_outcome = RenderFails exn | OcrFails exn | OcrText string

record page =
  rect_width :: rat
  rect_height :: rat
  get_text :: "exn + block list"
  ocr :: ocr_outcome

type_synonym document = "page list"

record HeadingInfo =
  level :: string
  htext :: string
  page :: nat
  font_size :: rat
  is_bold :: bool
  is_centered :: bool

record outline_entry =
  e_level :: string
  e_text :: string
  e_page :: nat

record DocumentOutline =
  title :: string
  outline :: "outline_entry list"

record extractor =
  doc :: "document option"
  page_width :: rat
  page_height :: rat

definition init :: extractor where
  "init = \<lparr>doc = None, page_width = 0, page_height = 0\<rparr>"

section \<open>Layout pipeline\<close>

definition is_text_centered :: "rat \<times> rat \<times> rat \<times> rat \<Rightarrow> rat \<Rightarrow> rat \<Rightarrow> bool" where
  "is_text_centered bbox pw tolerance =
     (case bbox of (x0, y0, x1, y1) \<Rightarrow>
        let text_x = (x0 + x1) / 2;
            page_center = pw / 2
        in \<bar>text_x - page_center\<bar> < pw * tolerance)"

definition span_is_bold :: "span \<Rightarrow> bool" where
  \<comment> \<open>\<open>"bold" in span["font"].lower() or span["flags"] & 2**4\<close>, as a truth value\<close>
  "span_is_bold sp = (py_in ''bold'' (lower (span_font sp)) \<or> (span_flags sp AND 2 ^ 4) \<noteq> 0)"

definition spans_of :: "block list \<Rightarrow> span list" where
  \<comment> \<open>the spans in the order the three nested loops visit them\<close>
  "spans_of blocks =
     concat (map (\<lambda>b. case b of None \<Rightarrow> [] | Some ls \<Rightarrow> concat ls) blocks)"

definition title_step :: "extractor \<Rightarrow> (string \<times> rat) list \<Rightarrow> span \<Rightarrow> (string \<times> rat) list" where
  \<comment> \<open>the body of the innermost loop of \<open>_extract_title\<close>\<close>
  "title_step self title_candidates sp =
     (let text = strip (span_text sp)
      in if text = [] then title_candidates
         else let fs = span_size sp;
                  bold = span_is_bold sp;
                  centered = is_text_centered (span_bbox sp) (page_width self) (1 / 10)
              in if fs > 14 \<and> bold \<and> centered then title_candidates @ [(text, fs)]
                 else title_candidates)"

definition extract_title :: "extractor \<Rightarrow> page \<Rightarrow> exn + string" where
  "extract_title self first_page =
     (case get_text first_page of
        Inl e \<Rightarrow> Inl e
      | Inr blocks \<Rightarrow>
          let title_candidates = foldl (title_step self) [] (spans_of blocks)
          in if title_candidates \<noteq> []
             then Inr (fst (hd (py_sorted_reverse snd title_candidates)))
             else Inr ''Untitled Document'')"

definition heading_step :: "extractor \<Rightarrow> nat \<Rightarrow> HeadingInfo list \<Rightarrow> span \<Rightarrow> HeadingInfo list" where
  \<comment> \<open>the body of the innermost loop of \<open>_extract_headings_from_page\<close>\<close>
  "heading_step self page_num headings sp =
     (let text = strip (span_text sp)
      in if text = [] \<or> length text < 3 then headings
         else if length text > 100 then headings
         else let fs = span_size sp;
                  bold = span_is_bold sp;
                  centered = is_text_centered (span_bbox sp) (page_width self) (1 / 10)
              in if fs \<ge> 10 \<and> (bold \<or> centered)
                 then headings @ [\<lparr>level = '''', htext = text, page = page_num, font_size = fs,
                                   is_bold = bold, is_centered = centered\<rparr>]
                 else headings)"

definition extract_headings_from_page :: "extractor \<Rightarrow> page \<Rightarrow> nat \<Rightarrow> exn + HeadingInfo list" where
  "extract_headings_from_page self pg page_num =
     (case get_text pg of
        Inl e \<Rightarrow> Inl e
      | Inr blocks \<Rightarrow> Inr (foldl (heading_step self page_num) [] (spans_of blocks)))"

fun headings_loop :: "extractor \<Rightarrow> page list \<Rightarrow> nat \<Rightarrow> HeadingInfo list \<Rightarrow> exn + HeadingInfo list" where
  \<comment> \<open>\<open>for page_num in range(len(self.doc))\<close>, from \<open>page_num\<close> on, over the pages left\<close>
  "headings_loop self [] page_num headings = Inr headings"
| "headings_loop self (pg # pgs) page_num headings =
     (case extract_headings_from_page self pg (page_num + 1) of
        Inl e \<Rightarrow> Inl e
      | Inr page_headings \<Rightarrow> headings_loop self pgs (page_num + 1) (headings @ page_headings))"

fun py_max :: "rat list \<Rightarrow> rat" where
  "py_max (x # xs) = fold max xs x"

fun py_min :: "rat list \<Rightarrow> rat" where
  "py_min (x # xs) = fold min xs x"

definition level_order :: "string \<Rightarrow> nat option" where
  \<comment> \<open>the dictionary \<open>{"H1": 1, "H2": 2, "H3": 3}\<close>\<close>
  "level_order l =
     (if l = ''H1'' then Some 1 else if l = ''H2'' then Some 2
      else if l = ''H3'' then Some 3 else None)"

definition level_by_format :: "HeadingInfo \<Rightarrow> HeadingInfo" where
  "level_by_format h =
     (if is_bold h \<and> is_centered h then h\<lparr>level := ''H1''\<rparr>
      else if is_bold h then h\<lparr>level := ''H2''\<rparr>
      else h\<lparr>level := ''H3''\<rparr>)"

definition level_by_size :: "rat \<Rightarrow> rat \<Rightarrow> HeadingInfo \<Rightarrow> HeadingInfo" where
  "level_by_size min_size size_range h =
     (let normalized_size = (font_size h - min_size) / size_range
      in if normalized_size > 7 / 10 then h\<lparr>level := ''H1''\<rparr>
         else if normalized_size > 4 / 10 then h\<lparr>level := ''H2''\<rparr>
         else h\<lparr>level := ''H3''\<rparr>)"

definition classify_headings :: "HeadingInfo list \<Rightarrow> exn + HeadingInfo list" where
  "classify_headings headings =
     (if headings = [] then Inr []
      else let sorted_headings = py_sorted_reverse font_size headings;
               font_sizes = map font_size sorted_headings;
               max_size = py_max font_sizes;
               min_size = py_min font_sizes;
               size_range = max_size - min_size;
               leveled = (if size_range = 0 then map level_by_format sorted_headings
                          else map (level_by_size min_size size_range) sorted_headings)
           in case find (\<lambda>h. level_order (level h) = None) leveled of
                Some h \<Rightarrow> Inl (KeyError (level h))
              | None \<Rightarrow> Inr (sort_key (\<lambda>h. (page h, the (level_order (level h)))) leveled))"

definition to_entry :: "HeadingInfo \<Rightarrow> outline_entry" where
  "to_entry h = \<lparr>e_level = level h, e_text = htext h, e_page = page h\<rparr>"

definition extract_layout_based ::
  "(string \<Rightarrow> exn + document) \<Rightarrow> extractor \<Rightarrow> string \<Rightarrow> (exn + DocumentOutline) \<times> extractor" where
  \<comment> \<open>\<open>fitz_open\<close> is \<open>fitz.open\<close>; the extractor is returned as the call leaves it\<close>
  "extract_layout_based fitz_open self pdf_path =
     (case fitz_open pdf_path of
        Inl e \<Rightarrow> (Inl e, self)
      | Inr d \<Rightarrow>
          let self1 = self\<lparr>doc := Some d\<rparr>
          in if length d = 0 then (Inl (ValueError ''PDF is empty or corrupted''), self1)
             else
               let first_page = d ! 0;
                   self2 = self1\<lparr>page_width := rect_width first_page,
                                 page_height := rect_height first_page\<rparr>
               in case extract_title self2 first_page of
                    Inl e \<Rightarrow> (Inl e, self2)
                  | Inr t \<Rightarrow>
                      (case headings_loop self2 d 0 [] of
                         Inl e \<Rightarrow> (Inl e, self2)
                       | Inr headings \<Rightarrow>
                           (case classify_headings headings of
                              Inl e \<Rightarrow> (Inl e, self2)
                            | Inr classified_headings \<Rightarrow>
                                (Inr \<lparr>title = t, outline = map to_entry classified_headings\<rparr>,
                                 self2))))"

section \<open>Regular expressions of the OCR pipeline\<close>

text \<open>
  The patterns of the source are written as syntax trees, and \<open>re.match\<close> is a matcher
  by derivatives. \<open>re.match\<close> looks for a match that starts at the first character, so
  the leading \<open>^\<close> of a pattern changes nothing. A pattern that ends in \<open>$\<close> matches
  when its body matches the whole string, or the whole string but a last newline; a
  pattern with no \<open>$\<close> matches when its body matches some prefix of the string.
\<close>

datatype atom = Range char char | Digit | Space | Lit char

fun atom_matches :: "atom \<Rightarrow> char \<Rightarrow> bool" where
  "atom_matches (Range a b) c = ((of_char a :: nat) \<le> of_char c \<and> (of_char c :: nat) \<le> of_char b)"
| "atom_matches Digit c = is_digit c"
| "atom_matches Space c = is_space c"
| "atom_matches (Lit a) c = (c = a)"

datatype regex = Null | Eps | Cls "atom list" | Alt regex regex | Seq regex regex | Star regex

definition Plus :: "regex \<Rightarrow> regex" where
  \<comment> \<open>the postfix \<open>+\<close>\<close>
  "Plus r = Seq r (Star r)"

fun nullable :: "regex \<Rightarrow> bool" where
  "nullable Null = False"
| "nullable Eps = True"
| "nullable (Cls as) = False"
| "nullable (Alt r s) = (nullable r \<or> nullable s)"
| "nullable (Seq r s) = (nullable r \<and> nullable s)"
| "nullable (Star r) = True"

fun deriv :: "char \<Rightarrow> regex \<Rightarrow> regex" where
  "deriv c Null = Null"
| "deriv c Eps = Null"
| "deriv c (Cls as) = (if list_ex (\<lambda>a. atom_matches a c) as then Eps else Null)"
| "deriv c (Alt r s) = Alt (deriv c r) (deriv c s)"
| "deriv c (Seq r s) =
     (if nullable r then Alt (Seq (deriv c r) s) (deriv c s) else Seq (deriv c r) s)"
| "deriv c (Star r) = Seq (deriv c r) (Star r)"

fun match_prefix :: "regex \<Rightarrow> string \<Rightarrow> bool" where
  \<comment> \<open>\<open>re.match\<close> of a pattern with no \<open>$\<close>\<close>
  "match_prefix r [] = nullable r"
| "match_prefix r (c # cs) = (nullable r \<or> match_prefix (deriv c r) cs)"

fun match_dollar :: "regex \<Rightarrow> string \<Rightarrow> bool" where
  \<comment> \<open>\<open>re.match\<close> of a pattern that ends in \<open>$\<close>\<close>
  "match_dollar r [] = nullable r"
| "match_dollar r (c # cs) =
     ((cs = [] \<and> c = CHR 0x0A \<and> nullable r) \<or> match_dollar (deriv c r) cs)"

fun re_match :: "regex \<times> bool \<Rightarrow> string \<Rightarrow> bool" where
  \<comment> \<open>a pattern is its body and whether it ends in \<open>$\<close>\<close>
  "re_match (r, dollar) s = (if dollar then match_dollar r s else match_prefix r s)"

definition upper_AZ :: regex where
  "upper_AZ = Cls [Range CHR ''A'' CHR ''Z'']"

definition lower_az :: regex where
  "lower_az = Cls [Range CHR ''a'' CHR ''z'']"

definition pat_just_numbers :: "regex \<times> bool" where
  \<comment> \<open>\<open>^\d+$\<close>\<close>
  "pat_just_numbers = (Plus (Cls [Digit]), True)"

definition pat_all_caps :: "regex \<times> bool" where
  \<comment> \<open>\<open>^[A-Z][A-Z\s]+$\<close>\<close>
  "pat_all_caps = (Seq upper_AZ (Plus (Cls [Range CHR ''A'' CHR ''Z'', Space])), True)"

definition pat_numbered :: "regex \<times> bool" where
  \<comment> \<open>\<open>^\d+\.\s+[A-Z]\<close>\<close>
  "pat_numbered =
     (Seq (Plus (Cls [Digit])) (Seq (Cls [Lit CHR ''.'']) (Seq (Plus (Cls [Space])) upper_AZ)),
      False)"

definition pat_title_case :: "regex \<times> bool" where
  \<comment> \<open>\<open>^[A-Z][a-z]+(\s+[A-Z][a-z]+)*$\<close>\<close>
  "pat_title_case =
     (Seq upper_AZ (Seq (Plus lower_az)
        (Star (Seq (Plus (Cls [Space])) (Seq upper_AZ (Plus lower_az))))),
      True)"

definition pat_number_prefix :: "regex \<times> bool" where
  \<comment> \<open>\<open>^\d+\.\s+\<close>\<close>
  "pat_number_prefix =
     (Seq (Plus (Cls [Digit])) (Seq (Cls [Lit CHR ''.'']) (Plus (Cls [Space]))), False)"

definition heading_patterns :: "(regex \<times> bool) list" where
  "heading_patterns = [pat_all_caps, pat_numbered, pat_title_case]"

section \<open>OCR pipeline\<close>

definition looks_like_heading :: "string \<Rightarrow> bool" where
  "looks_like_heading text =
     (if re_match pat_just_numbers text then False
      else if length text < 3 \<or> length text > 80 then False
      else if lower text \<in> set [''page'', ''continued'', ''...''] then False
      else list_ex (\<lambda>pattern. re_match pattern text) heading_patterns)"

definition classify_ocr_heading :: "string \<Rightarrow> string" where
  "classify_ocr_heading text =
     (if isupper text \<and> length text < 30 then ''H1''
      else if re_match pat_number_prefix text then ''H2''
      else ''H3'')"

record line_info =
  li_text :: string
  li_page :: nat

definition detect_step :: "outline_entry list \<Rightarrow> line_info \<Rightarrow> outline_entry list" where
  \<comment> \<open>the body of the loop of \<open>_detect_headings_from_ocr\<close>\<close>
  "detect_step outl li =
     (let text = li_text li; pg = li_page li
      in if looks_like_heading text
         then outl @ [\<lparr>e_level = classify_ocr_heading text, e_text = text, e_page = pg\<rparr>]
         else outl)"

definition detect_headings_from_ocr :: "line_info list \<Rightarrow> outline_entry list" where
  "detect_headings_from_ocr text_lines = foldl detect_step [] text_lines"

definition text_step :: "nat \<Rightarrow> line_info list \<Rightarrow> string \<Rightarrow> line_info list" where
  \<comment> \<open>the body of the first loop over the lines of a page\<close>
  "text_step page_num all_text raw_line =
     (let l = strip raw_line
      in if l \<noteq> [] \<and> length l > 2 then all_text @ [\<lparr>li_text = l, li_page = page_num + 1\<rparr>]
         else all_text)"

fun first_title :: "string list \<Rightarrow> string option" where
  \<comment> \<open>the second loop over the lines of the first page, up to its \<open>break\<close>\<close>
  "first_title [] = None"
| "first_title (raw_line # lns) =
     (let l = strip raw_line
      in if l \<noteq> [] \<and> length l > 3 \<and> length l < 100 then Some l else first_title lns)"

fun ocr_loop ::
  "page list \<Rightarrow> nat \<Rightarrow> line_info list \<Rightarrow> string \<Rightarrow> exn + (line_info list \<times> string)" where
  \<comment> \<open>\<open>for page_num in range(len(self.doc))\<close>, from \<open>page_num\<close> on, over the pages left\<close>
  "ocr_loop [] page_num all_text t = Inr (all_text, t)"
| "ocr_loop (pg # pgs) page_num all_text t =
     (case ocr pg of
        RenderFails e \<Rightarrow> Inl e
      | OcrFails e \<Rightarrow> ocr_loop pgs (page_num + 1) all_text t
      | OcrText ocr_text \<Rightarrow>
          let lines = split_on CHR 0x0A ocr_text;
              all_text' = foldl (text_step page_num) all_text lines;
              t' = (if page_num = 0 \<and> lines \<noteq> []
                    then (case first_title lines of Some l \<Rightarrow> l | None \<Rightarrow> t)
                    else t)
          in ocr_loop pgs (page_num + 1) all_text' t')"

definition extract_ocr_based ::
  "(string \<Rightarrow> exn + document) \<Rightarrow> extractor \<Rightarrow> string \<Rightarrow> (exn + DocumentOutline) \<times> extractor" where
  "extract_ocr_based fitz_open self pdf_path =
     (case fitz_open pdf_path of
        Inl e \<Rightarrow> (Inl e, self)
      | Inr d \<Rightarrow>
          let self1 = self\<lparr>doc := Some d\<rparr>
          in if length d = 0 then (Inl (ValueError ''PDF is empty or corrupted''), self1)
             else (case ocr_loop d 0 [] ''Untitled Document'' of
                     Inl e \<Rightarrow> (Inl e, self1)
                   | Inr (all_text, t) \<Rightarrow>
                       (Inr \<lparr>title = t, outline = detect_headings_from_ocr all_text\<rparr>, self1)))"

section \<open>Orchestrator\<close>

definition extract_outline ::
  "(string \<Rightarrow> exn + document) \<Rightarrow> extractor \<Rightarrow> string \<Rightarrow> (exn + DocumentOutline) \<times> extractor" where
  \<comment> \<open>\<open>try\<close> the layout pipeline; on any exception run the OCR pipeline on the extractor
     as the failed call left it\<close>
  "extract_outline fitz_open self pdf_path =
     (case extract_layout_based fitz_open self pdf_path of
        (Inr r, self') \<Rightarrow> (Inr r, self')
      | (Inl e, self') \<Rightarrow> extract_ocr_based fitz_open self' pdf_path)"

section \<open>Notions used in the statements\<close>

definition mk_heading :: "extractor \<Rightarrow> nat \<Rightarrow> span \<Rightarrow> HeadingInfo" where
  \<comment> \<open>the \<open>HeadingInfo\<close> that \<open>_extract_headings_from_page\<close> builds for a span it keeps\<close>
  "mk_heading self page_num sp =
     \<lparr>level = '''', htext = strip (span_text sp), page = page_num, font_size = span_size sp,
      is_bold = span_is_bold sp,
      is_centered = is_text_centered (span_bbox sp) (page_width self) (1 / 10)\<rparr>"

definition rank_of :: "string \<Rightarrow> nat" where
  \<comment> \<open>the number the final sort gives a level: 1, 2, 3\<close>
  "rank_of l = (case level_order l of Some k \<Rightarrow> k | None \<Rightarrow> 0)"

definition assign_level :: "HeadingInfo list \<Rightarrow> HeadingInfo \<Rightarrow> HeadingInfo" where
  \<comment> \<open>the level the classifier gives a candidate of a non-empty list \<open>hs\<close>\<close>
  "assign_level hs =
     (let max_size = Max (font_size ` set hs); min_size = Min (font_size ` set hs)
      in if max_size - min_size = 0 then level_by_format
         else level_by_size min_size (max_size - min_size))"

definition threshold_level :: "rat \<Rightarrow> string" where
  \<comment> \<open>the level of a normalized size\<close>
  "threshold_level x = (if x > 7 / 10 then ''H1'' else if x > 4 / 10 then ''H2'' else ''H3'')"

definition unlevel :: "HeadingInfo \<Rightarrow> HeadingInfo" where
  \<comment> \<open>a candidate without its level\<close>
  "unlevel h = h\<lparr>level := ''''\<rparr>"

definition layout_self :: "extractor \<Rightarrow> document \<Rightarrow> extractor" where
  \<comment> \<open>the extractor once the layout pipeline has opened \<open>d\<close> and read its first page\<close>
  "layout_self self d =
     self\<lparr>doc := Some d, page_width := rect_width (d ! 0), page_height := rect_height (d ! 0)\<rparr>"

definition entry_before :: "outline_entry \<Rightarrow> outline_entry \<Rightarrow> bool" where
  \<comment> \<open>page first, then level\<close>
  "entry_before a b =
     (e_page a < e_page b \<or> (e_page a = e_page b \<and> rank_of (e_level a) \<le> rank_of (e_level b)))"

definition is_title_candidate :: "rat \<Rightarrow> span \<Rightarrow> bool" where
  \<comment> \<open>the test of \<open>_extract_title\<close> on a span, for a page width\<close>
  "is_title_candidate pw sp =
     (strip (span_text sp) \<noteq> [] \<and> span_size sp > 14 \<and> span_is_bold sp
      \<and> is_text_centered (span_bbox sp) pw (1 / 10))"

definition stated_title_candidate :: "rat \<Rightarrow> span \<Rightarrow> bool" where
  \<comment> \<open>the same test without the guard on the trimmed text\<close>
  "stated_title_candidate pw sp =
     (span_size sp > 14 \<and> span_is_bold sp \<and> is_text_centered (span_bbox sp) pw (1 / 10))"

definition largest_first :: "span list \<Rightarrow> span" where
  \<comment> \<open>the first span of the largest font size\<close>
  "largest_first cands =
     hd (filter (\<lambda>sp. span_size sp = Max (span_size ` set cands)) cands)"

definition keeps :: "rat \<Rightarrow> span \<Rightarrow> bool" where
  \<comment> \<open>the test of \<open>_extract_headings_from_page\<close> on a span, for a page width\<close>
  "keeps pw sp =
     (3 \<le> length (strip (span_text sp)) \<and> length (strip (span_text sp)) \<le> 100
      \<and> span_size sp \<ge> 10
      \<and> (span_is_bold sp \<or> is_text_centered (span_bbox sp) pw (1 / 10)))"

definition kept_on_page :: "rat \<Rightarrow> nat \<Rightarrow> page \<Rightarrow> (string \<times> nat) list" where
  \<comment> \<open>text and page number of the spans of a page that pass the test\<close>
  "kept_on_page pw n pg =
     (case get_text pg of
        Inl e \<Rightarrow> []
      | Inr blocks \<Rightarrow> map (\<lambda>sp. (strip (span_text sp), n)) (filter (keeps pw) (spans_of blocks)))"

definition ocr_entry :: "nat \<Rightarrow> string \<Rightarrow> outline_entry" where
  \<comment> \<open>the outline entry of a heading line\<close>
  "ocr_entry n l = \<lparr>e_level = classify_ocr_heading l, e_text = l, e_page = n\<rparr>"

definition page_entries :: "nat \<Rightarrow> page \<Rightarrow> outline_entry list" where
  \<comment> \<open>the heading lines of one page, in the order of the recognised text\<close>
  "page_entries n pg =
     (case ocr pg of
        OcrText ocr_text \<Rightarrow>
          map (ocr_entry n)
            (filter (\<lambda>l. length l > 2 \<and> looks_like_heading l)
               (map strip (split_on CHR 0x0A ocr_text)))
      | _ \<Rightarrow> [])"

definition conc :: "string set \<Rightarrow> string set \<Rightarrow> string set" where
  \<comment> \<open>concatenation of two languages\<close>
  "conc A B = {u @ v | u v. u \<in> A \<and> v \<in> B}"

definition star :: "string set \<Rightarrow> string set" where
  \<comment> \<open>iteration of a language\<close>
  "star A = {concat ws | ws. set ws \<subseteq> A}"

fun lang :: "regex \<Rightarrow> string set" where
  \<comment> \<open>the strings a pattern body matches in full\<close>
  "lang Null = {}"
| "lang Eps = {[]}"
| "lang (Cls as) = {[c] | c. list_ex (\<lambda>a. atom_matches a c) as}"
| "lang (Alt r s) = lang r \<union> lang s"
| "lang (Seq r s) = conc (lang r) (lang s)"
| "lang (Star r) = star (lang r)"

definition in_AZ :: "char \<Rightarrow> bool" where
  \<comment> \<open>the characters \<open>[A-Z]\<close> matches\<close>
  "in_AZ c = (65 \<le> (of_char c :: nat) \<and> (of_char c :: nat) \<le> 90)"

definition in_az :: "char \<Rightarrow> bool" where
  \<comment> \<open>the characters \<open>[a-z]\<close> matches\<close>
  "in_az c = (97 \<le> (of_char c :: nat) \<and> (of_char c :: nat) \<le> 122)"

definition purely_numeric :: "string \<Rightarrow> bool" where
  \<comment> \<open>one or more digits and nothing else\<close>
  "purely_numeric t = (t \<noteq> [] \<and> list_all is_digit t)"

definition all_caps_with_spaces :: "string \<Rightarrow> bool" where
  \<comment> \<open>a capital letter, then one or more capital letters or white space\<close>
  "all_caps_with_spaces t =
     (\<exists>c cs. t = c # cs \<and> in_AZ c \<and> cs \<noteq> [] \<and> list_all (\<lambda>x. in_AZ x \<or> is_space x) cs)"

definition numbered_heading :: "string \<Rightarrow> bool" where
  \<comment> \<open>digits, a dot, white space, a capital letter, then anything\<close>
  "numbered_heading t =
     (\<exists>ds ws c rest. t = ds @ CHR ''.'' # ws @ c # rest
        \<and> ds \<noteq> [] \<and> list_all is_digit ds \<and> ws \<noteq> [] \<and> list_all is_space ws \<and> in_AZ c)"

definition number_prefix :: "string \<Rightarrow> bool" where
  \<comment> \<open>digits, a dot, white space, then anything\<close>
  "number_prefix t =
     (\<exists>ds ws rest. t = ds @ CHR ''.'' # ws @ rest
        \<and> ds \<noteq> [] \<and> list_all is_digit ds \<and> ws \<noteq> [] \<and> list_all is_space ws)"

definition capitalised_word :: "string \<Rightarrow> bool" where
  \<comment> \<open>a capital letter, then one or more small letters\<close>
  "capitalised_word w = (\<exists>c cs. w = c # cs \<and> in_AZ c \<and> cs \<noteq> [] \<and> list_all in_az cs)"

definition spaced_word :: "string \<Rightarrow> bool" where
  \<comment> \<open>white space, then a capitalised word\<close>
  "spaced_word x =
     (\<exists>sp w. x = sp @ w \<and> sp \<noteq> [] \<and> list_all is_space sp \<and> capitalised_word w)"

definition title_case_words :: "string \<Rightarrow> bool" where
  \<comment> \<open>capitalised words with white space between them\<close>
  "title_case_words t =
     (\<exists>w ws. t = w @ concat ws \<and> capitalised_word w \<and> (\<forall>x \<in> set ws. spaced_word x))"

section \<open>Example inputs\<close>

definition b_self :: extractor where
  "b_self = \<lparr>doc = None, page_width = 600, page_height = 800\<rparr>"

definition b_span :: span where
  "b_span = \<lparr>span_text = replicate 100 CHR ''x'', span_size = 10, span_font = ''Helvetica'',
     span_flags = 0, span_bbox = (250, 700, 350, 712)\<rparr>"

definition b_long :: span where
  "b_long = \<lparr>span_text = replicate 101 CHR ''x'', span_size = 10, span_font = ''Helvetica'',
     span_flags = 0, span_bbox = (250, 700, 350, 712)\<rparr>"

definition b_edge :: span where
  "b_edge = \<lparr>span_text = ''Chapter'', span_size = 20, span_font = ''Helvetica'',
     span_flags = 0, span_bbox = (230, 700, 250, 712)\<rparr>"

definition empty_open :: "string \<Rightarrow> exn + document" where
  "empty_open path = Inr []"

definition scanned_page :: page where
  "scanned_page = \<lparr>rect_width = 600, rect_height = 800,
     get_text = Inl (LibraryError ''no text layer''),
     ocr = OcrText (''INTRODUCTION'' @ [CHR 0x0A] @ ''1. Overview'' @ [CHR 0x0A] @ ''42'')\<rparr>"

definition scanned_open :: "string \<Rightarrow> exn + document" where
  "scanned_open path = Inr [scanned_page]"

definition broken_page :: page where
  "broken_page = \<lparr>rect_width = 600, rect_height = 800,
     get_text = Inl (LibraryError ''no text layer''),
     ocr = RenderFails (LibraryError ''cannot render'')\<rparr>"

definition broken_open :: "string \<Rightarrow> exn + document" where
  "broken_open path = Inr [broken_page]"

definition bold_span :: "string \<Rightarrow> rat \<Rightarrow> span" where
  "bold_span txt sz = \<lparr>span_text = txt, span_size = sz, span_font = ''Times-Bold'',
     span_flags = 16, span_bbox = (72, 100, 300, 120)\<rparr>"

definition report_doc :: document where
  "report_doc =
     [\<lparr>rect_width = 600, rect_height = 800,
        get_text = Inr [Some [[bold_span ''Small print'' 10], [bold_span ''Big heading'' 20]]],
        ocr = OcrText ''''\<rparr>,
      \<lparr>rect_width = 600, rect_height = 800,
        get_text = Inr [None, Some [[bold_span ''Middle heading'' 15]]],
        ocr = OcrText ''''\<rparr>]"

definition report_open :: "string \<Rightarrow> exn + document" where
  "report_open path = Inr report_doc"

definition three_sizes :: "HeadingInfo list" where
  "three_sizes =
     [\<lparr>level = '''', htext = ''Small'', page = 1, font_size = 10, is_bold = True, is_centered = False\<rparr>,
      \<lparr>level = '''', htext = ''Large'', page = 1, font_size = 20, is_bold = True, is_centered = False\<rparr>,
      \<lparr>level = '''', htext = ''Medium'', page = 1, font_size = 15, is_bold = True, is_centered = False\<rparr>]"

definition blank_span :: span where
  "blank_span = \<lparr>span_text = '' '', span_size = 24, span_font = ''Times-Bold'',
     span_flags = 16, span_bbox = (290, 80, 310, 104)\<rparr>"

definition report_span :: span where
  "report_span = \<lparr>span_text = ''Annual Report'', span_size = 18, span_font = ''Times-Bold'',
     span_flags = 16, span_bbox = (200, 120, 400, 138)\<rparr>"

definition second_span :: span where
  "second_span = \<lparr>span_text = '' Second Title '', span_size = 18, span_font = ''Times-Bold'',
     span_flags = 16, span_bbox = (200, 150, 400, 168)\<rparr>"

definition cover_blocks :: "block list" where
  "cover_blocks = [Some [[blank_span, report_span], [second_span]]]"

definition cover_doc :: document where
  "cover_doc = [\<lparr>rect_width = 600, rect_height = 800,
     get_text = Inr cover_blocks, ocr = OcrText ''''\<rparr>]"

definition cover_open :: "string \<Rightarrow> exn + document" where
  "cover_open path = Inr cover_doc"

definition wide_span :: span where
  "wide_span = \<lparr>span_text = ''Heading'', span_size = 12, span_font = ''Helvetica'',
     span_flags = 0, span_bbox = (450, 100, 550, 112)\<rparr>"

definition wide_doc :: document where
  "wide_doc =
     [\<lparr>rect_width = 600, rect_height = 800, get_text = Inr [], ocr = OcrText ''''\<rparr>,
      \<lparr>rect_width = 1000, rect_height = 800, get_text = Inr [Some [[wide_span]]],
        ocr = OcrText ''''\<rparr>]"

definition wide_open :: "string \<Rightarrow> exn + document" where
  "wide_open path = Inr wide_doc"

definition notes_doc :: document where
  "notes_doc =
     [\<lparr>rect_width = 600, rect_height = 800, get_text = Inl (LibraryError ''no text layer''),
        ocr = OcrText (''Background Notes'' @ [CHR 0x0A] @ ''  INTRODUCTION '' @ [CHR 0x0A] @ ''page'')\<rparr>,
      \<lparr>rect_width = 600, rect_height = 800, get_text = Inl (LibraryError ''no text layer''),
        ocr = OcrFails (LibraryError ''tesseract failed'')\<rparr>,
      \<lparr>rect_width = 600, rect_height = 800, get_text = Inl (LibraryError ''no text layer''),
        ocr = OcrText (''1. Overview'' @ [CHR 0x0A] @ ''some body text'')\<rparr>]"

definition notes_open :: "string \<Rightarrow> exn + document" where
  "notes_open path = Inr notes_doc"

section \<open>Auxiliary facts\<close>

lemma dropWhile_self: "xs = [] \<or> \<not> P (hd xs) \<Longrightarrow> dropWhile P xs = xs"
  by (cases xs) auto

lemma strip_id: "s = [] \<or> (\<not> is_space (hd s) \<and> \<not> is_space (last s)) \<Longrightarrow> strip s = s"
proof -
  assume a: "s = [] \<or> (\<not> is_space (hd s) \<and> \<not> is_space (last s))"
  then have 1: "dropWhile is_space s = s" by (intro dropWhile_self) auto
  from a have "rev s = [] \<or> \<not> is_space (hd (rev s))"
    by (cases "s = []") (simp_all add: hd_rev)
  then have "dropWhile is_space (rev s) = rev s" by (rule dropWhile_self)
  with 1 show ?thesis by (simp add: strip_def)
qed

lemma strip_replicate_x: "strip (replicate (Suc n) CHR ''x'') = replicate (Suc n) CHR ''x''"
  by (rule strip_id) (simp add: is_space_def last_replicate del: replicate_Suc)

section \<open>The centering test at its boundary\<close>

text \<open>
  Claim C10. The centering test is a strict inequality: a span whose horizontal midpoint
  lies at a distance of exactly a tenth of the page width from the centre of the page is
  not centered. Such a span is never a title candidate, and it is a heading candidate
  only when it is bold.
\<close>

theorem centered_boundary_not_centered:
  "\<bar>(x0 + x1) / 2 - pw / 2\<bar> = pw * (1 / 10) \<Longrightarrow>
     \<not> is_text_centered (x0, y0, x1, y1) pw (1 / 10)
     \<and> (span_bbox sp = (x0, y0, x1, y1) \<and> page_width self = pw \<longrightarrow>
          title_step self cands sp = cands
          \<and> (\<not> span_is_bold sp \<longrightarrow> heading_step self n hs sp = hs))"
  by (auto simp: is_text_centered_def title_step_def heading_step_def Let_def)

theorem centered_boundary_not_centered_witness:
  "\<not> is_text_centered (230, 700, 250, 712) 600 (1 / 10)
   \<and> title_step b_self [] b_edge = [] \<and> heading_step b_self 1 [] b_edge = []"
proof -
  have d: "\<bar>(230 + 250) / 2 - 600 / 2\<bar> = (600 :: rat) * (1 / 10)" by simp
  have nb: "\<not> span_is_bold b_edge"
    by (simp add: span_is_bold_def b_edge_def lower_def char_lower_def char_isupper_def)
  have bb: "span_bbox b_edge = (230, 700, 250, 712) \<and> page_width b_self = 600"
    by (simp add: b_edge_def b_self_def)
  from centered_boundary_not_centered [OF d, of 700 712 b_edge b_self "[]" 1 "[]"] nb bb
  show ?thesis by simp
qed

section \<open>The candidate filter at its boundaries\<close>

text \<open>
  Claim C9. A span of font size exactly 10 that is centered and not bold is kept as a
  heading candidate whenever its trimmed text has between 3 and 100 characters; a span
  whose trimmed text has exactly 100 characters is kept whenever its size and format
  qualify; a span whose trimmed text has more than 100 characters is discarded.
\<close>

theorem heading_step_boundaries:
  "(span_size sp = 10 \<and> is_text_centered (span_bbox sp) (page_width self) (1 / 10)
      \<and> \<not> span_is_bold sp \<and> 3 \<le> length (strip (span_text sp))
      \<and> length (strip (span_text sp)) \<le> 100
      \<longrightarrow> heading_step self n hs sp = hs @ [mk_heading self n sp])
   \<and> (length (strip (span_text sp)) = 100 \<and> span_size sp \<ge> 10
      \<and> (span_is_bold sp \<or> is_text_centered (span_bbox sp) (page_width self) (1 / 10))
      \<longrightarrow> heading_step self n hs sp = hs @ [mk_heading self n sp])
   \<and> (length (strip (span_text sp)) > 100 \<longrightarrow> heading_step self n hs sp = hs)"
  by (auto simp: heading_step_def mk_heading_def Let_def)

theorem heading_step_boundaries_witness:
  "heading_step b_self 1 [] b_span = [mk_heading b_self 1 b_span]
   \<and> htext (mk_heading b_self 1 b_span) = replicate 100 CHR ''x''
   \<and> heading_step b_self 1 [] b_long = []"
proof -
  have s: "strip (span_text b_span) = replicate 100 CHR ''x''"
    using strip_replicate_x [of 99] by (simp add: b_span_def)
  have l: "strip (span_text b_long) = replicate 101 CHR ''x''"
    using strip_replicate_x [of 100] by (simp add: b_long_def)
  have c: "is_text_centered (span_bbox b_span) (page_width b_self) (1 / 10)"
    by (simp add: is_text_centered_def b_span_def b_self_def)
  have z: "span_size b_span = 10" by (simp add: b_span_def)
  have nb: "\<not> span_is_bold b_span"
    by (simp add: span_is_bold_def b_span_def lower_def char_lower_def char_isupper_def)
  from heading_step_boundaries [of b_span b_self 1 "[]"]
    heading_step_boundaries [of b_long b_self 1 "[]"] s l c z nb
  show ?thesis by (simp add: mk_heading_def)
qed

lemma ocr_result_any_extractor:
  "fst (extract_ocr_based fitz_open self path) = fst (extract_ocr_based fitz_open self' path)"
  by (simp add: extract_ocr_based_def Let_def split: sum.splits prod.splits)

section \<open>Documents with no page\<close>

text \<open>
  Claim C5. On a document with zero pages both the layout pipeline and the OCR pipeline
  raise the error of an empty or corrupted document (a \<open>ValueError\<close> with the message
  \<open>PDF is empty or corrupted\<close>), and return no outline.
\<close>

theorem empty_document_raises:
  "fitz_open path = Inr d \<Longrightarrow> length d = 0 \<Longrightarrow>
     fst (extract_layout_based fitz_open self path) = Inl (ValueError ''PDF is empty or corrupted'')
     \<and> fst (extract_ocr_based fitz_open self path) = Inl (ValueError ''PDF is empty or corrupted'')"
  by (simp add: extract_layout_based_def extract_ocr_based_def)

theorem empty_document_raises_witness:
  "fst (extract_layout_based empty_open init ''a.pdf'') = Inl (ValueError ''PDF is empty or corrupted'')
   \<and> fst (extract_ocr_based empty_open init ''a.pdf'') = Inl (ValueError ''PDF is empty or corrupted'')"
proof -
  have o: "empty_open ''a.pdf'' = Inr []" by (simp add: empty_open_def)
  from empty_document_raises [of empty_open "''a.pdf''" "[]" init] o show ?thesis by simp
qed

section \<open>The orchestrator's fallback\<close>

text \<open>
  Claim C4. When the layout pipeline raises, whatever the exception, the result of the
  orchestrator is the result of the OCR pipeline run alone on the same input, from any
  extractor: nothing the failed layout run left behind takes part. If the OCR pipeline
  raises too, its exception is the result of the orchestrator.
\<close>

theorem fallback_is_ocr_alone:
  "fst (extract_layout_based fitz_open self path) = Inl e \<Longrightarrow>
     fst (extract_outline fitz_open self path) = fst (extract_ocr_based fitz_open fresh path)
     \<and> (fst (extract_ocr_based fitz_open fresh path) = Inl e2 \<longrightarrow>
          fst (extract_outline fitz_open self path) = Inl e2)"
proof -
  assume a: "fst (extract_layout_based fitz_open self path) = Inl e"
  obtain r s where rs: "extract_layout_based fitz_open self path = (r, s)" by force
  with a have "r = Inl e" by simp
  with rs have "extract_outline fitz_open self path = extract_ocr_based fitz_open s path"
    by (simp add: extract_outline_def)
  then have "fst (extract_outline fitz_open self path) = fst (extract_ocr_based fitz_open fresh path)"
    using ocr_result_any_extractor [of fitz_open s path fresh] by simp
  then show ?thesis by simp
qed

lemma scanned_layout: "fst (extract_layout_based scanned_open init ''a.pdf'') = Inl (LibraryError ''no text layer'')"
  by (simp add: extract_layout_based_def scanned_open_def scanned_page_def extract_title_def)

lemma broken_layout: "fst (extract_layout_based broken_open init ''a.pdf'') = Inl (LibraryError ''no text layer'')"
  by (simp add: extract_layout_based_def broken_open_def broken_page_def extract_title_def)

lemma scanned_ocr: "fst (extract_ocr_based scanned_open init ''a.pdf'') =
  Inr \<lparr>title = ''INTRODUCTION'', outline =
    [\<lparr>e_level = ''H1'', e_text = ''INTRODUCTION'', e_page = 1\<rparr>,
     \<lparr>e_level = ''H2'', e_text = ''1. Overview'', e_page = 1\<rparr>]\<rparr>"
  by code_simp

lemma broken_ocr: "fst (extract_ocr_based broken_open init ''a.pdf'') = Inl (LibraryError ''cannot render'')"
  by (simp add: extract_ocr_based_def broken_open_def broken_page_def)

theorem fallback_is_ocr_alone_witness:
  "fst (extract_outline scanned_open init ''a.pdf'') =
     Inr \<lparr>title = ''INTRODUCTION'', outline =
       [\<lparr>e_level = ''H1'', e_text = ''INTRODUCTION'', e_page = 1\<rparr>,
        \<lparr>e_level = ''H2'', e_text = ''1. Overview'', e_page = 1\<rparr>]\<rparr>
   \<and> fst (extract_outline broken_open init ''a.pdf'') = Inl (LibraryError ''cannot render'')"
  using fallback_is_ocr_alone [OF scanned_layout, of init]
    fallback_is_ocr_alone [OF broken_layout, of init "LibraryError ''cannot render''"]
    scanned_ocr broken_ocr
  by simp

section \<open>Rank classification\<close>

lemma py_max_Max: "xs \<noteq> [] \<Longrightarrow> py_max xs = Max (set xs)"
proof (cases xs)
  case (Cons a l)
  then show ?thesis using Max.set_eq_fold [of a l] by simp
qed simp

lemma py_min_Min: "xs \<noteq> [] \<Longrightarrow> py_min xs = Min (set xs)"
proof (cases xs)
  case (Cons a l)
  then show ?thesis using Min.set_eq_fold [of a l] by simp
qed simp

lemma set_py_sorted_reverse [simp]: "set (py_sorted_reverse f xs) = set xs"
  by (simp add: py_sorted_reverse_def)

lemma mset_py_sorted_reverse [simp]: "mset (py_sorted_reverse f xs) = mset xs"
  by (simp add: py_sorted_reverse_def)

lemma level_by_format_cases:
  "level (level_by_format h) = ''H1'' \<or> level (level_by_format h) = ''H2''
   \<or> level (level_by_format h) = ''H3''"
  by (simp add: level_by_format_def)

lemma level_by_size_cases:
  "level (level_by_size m r h) = ''H1'' \<or> level (level_by_size m r h) = ''H2''
   \<or> level (level_by_size m r h) = ''H3''"
  by (simp add: level_by_size_def Let_def)

lemma assign_level_cases:
  "level (assign_level hs h) = ''H1'' \<or> level (assign_level hs h) = ''H2''
   \<or> level (assign_level hs h) = ''H3''"
  using level_by_format_cases [of h] level_by_size_cases [of _ _ h]
  by (simp add: assign_level_def Let_def)

lemma level_order_assign: "level_order (level (assign_level hs h)) \<noteq> None"
  using assign_level_cases [of hs h] by (auto simp: level_order_def)

lemma find_None_all: "(\<And>x. x \<in> set xs \<Longrightarrow> \<not> P x) \<Longrightarrow> find P xs = None"
  by (simp add: find_None_iff)

lemma classify_headings_eq:
  assumes "hs \<noteq> []"
  shows "classify_headings hs =
     Inr (sort_key (\<lambda>h. (page h, the (level_order (level h))))
            (map (assign_level hs) (py_sorted_reverse font_size hs)))"
proof -
  let ?sh = "py_sorted_reverse font_size hs"
  have "length (map font_size ?sh) = length hs" by (simp add: py_sorted_reverse_def)
  with assms have ne: "map font_size ?sh \<noteq> []" by (metis length_0_conv)
  have mx: "py_max (map font_size ?sh) = Max (font_size ` set hs)"
    using py_max_Max [OF ne] by simp
  have mn: "py_min (map font_size ?sh) = Min (font_size ` set hs)"
    using py_min_Min [OF ne] by simp
  have lv: "(if py_max (map font_size ?sh) - py_min (map font_size ?sh) = 0
             then map level_by_format ?sh
             else map (level_by_size (py_min (map font_size ?sh))
                    (py_max (map font_size ?sh) - py_min (map font_size ?sh))) ?sh)
            = map (assign_level hs) ?sh"
    unfolding mx mn by (simp add: assign_level_def Let_def)
  have fn: "find (\<lambda>h. level_order (level h) = None) (map (assign_level hs) ?sh) = None"
    using level_order_assign [of hs] by (intro find_None_all) auto
  show ?thesis
    unfolding classify_headings_def Let_def lv using assms fn by simp
qed

lemma font_size_assign [simp]: "font_size (assign_level hs h) = font_size h"
  by (simp add: assign_level_def Let_def level_by_format_def level_by_size_def)

lemma page_assign [simp]: "page (assign_level hs h) = page h"
  by (simp add: assign_level_def Let_def level_by_format_def level_by_size_def)

lemma unlevel_assign [simp]: "unlevel (assign_level hs h) = unlevel h"
  by (simp add: assign_level_def Let_def level_by_format_def level_by_size_def unlevel_def)

lemma level_by_size_level:
  "level (level_by_size m r h) = threshold_level ((font_size h - m) / r)"
  by (simp add: level_by_size_def threshold_level_def Let_def)

lemma threshold_level_mono: "x < y \<Longrightarrow> rank_of (threshold_level y) \<le> rank_of (threshold_level x)"
  by (auto simp: threshold_level_def rank_of_def level_order_def)

lemma rank_by_size_mono:
  assumes "0 < r" and "font_size b < font_size a"
  shows "rank_of (level (level_by_size m r a)) \<le> rank_of (level (level_by_size m r b))"
proof -
  have "(font_size b - m) / r < (font_size a - m) / r"
    using assms by (simp add: divide_strict_right_mono)
  then show ?thesis
    unfolding level_by_size_level by (rule threshold_level_mono)
qed

lemma assign_level_mono:
  assumes "a \<in> set hs" "b \<in> set hs" "font_size b < font_size a"
  shows "rank_of (level (assign_level hs a)) \<le> rank_of (level (assign_level hs b))"
proof -
  have fin: "finite (font_size ` set hs)" by simp
  have "font_size a \<le> Max (font_size ` set hs)" using assms(1) by simp
  moreover have "Min (font_size ` set hs) \<le> font_size b" using assms(2) by simp
  ultimately have r: "0 < Max (font_size ` set hs) - Min (font_size ` set hs)"
    using assms(3) by linarith
  then have "assign_level hs =
      level_by_size (Min (font_size ` set hs)) (Max (font_size ` set hs) - Min (font_size ` set hs))"
    by (simp add: assign_level_def Let_def)
  with rank_by_size_mono [OF r assms(3)] show ?thesis by simp
qed

text \<open>
  Claim C2. Classification never raises and gives every candidate of the call a level;
  for any two candidates classified together, when the first has the larger font size its
  level is never of lower rank than the level of the second (\<open>H1\<close> counts 1,
  \<open>H2\<close> counts 2, \<open>H3\<close> counts 3, with the thresholds 0.7 and 0.4 on the
  normalized size).
\<close>

theorem classify_monotone_in_font_size:
  "\<exists>out. classify_headings hs = Inr out
        \<and> mset (map unlevel out) = mset (map unlevel hs)
        \<and> (\<forall>a \<in> set out. \<forall>b \<in> set out.
              font_size a > font_size b \<longrightarrow> rank_of (level a) \<le> rank_of (level b))"
proof (cases "hs = []")
  case True
  then show ?thesis by (simp add: classify_headings_def)
next
  case False
  let ?out = "sort_key (\<lambda>h. (page h, the (level_order (level h))))
                (map (assign_level hs) (py_sorted_reverse font_size hs))"
  have eq: "classify_headings hs = Inr ?out" by (rule classify_headings_eq [OF False])
  have ms: "mset (map unlevel ?out) = mset (map unlevel hs)"
    by (simp add: multiset.map_comp comp_def)
  have st: "set ?out = assign_level hs ` set hs" by simp
  have mono: "\<forall>a \<in> set ?out. \<forall>b \<in> set ?out.
      font_size a > font_size b \<longrightarrow> rank_of (level a) \<le> rank_of (level b)"
    unfolding st using assign_level_mono [of _ hs] by auto
  from eq ms mono show ?thesis by blast
qed

lemma three_sizes_classified:
  "classify_headings three_sizes =
     Inr [\<lparr>level = ''H1'', htext = ''Large'', page = 1, font_size = 20, is_bold = True, is_centered = False\<rparr>,
          \<lparr>level = ''H2'', htext = ''Medium'', page = 1, font_size = 15, is_bold = True, is_centered = False\<rparr>,
          \<lparr>level = ''H3'', htext = ''Small'', page = 1, font_size = 10, is_bold = True, is_centered = False\<rparr>]"
  by code_simp

theorem classify_monotone_in_font_size_witness:
  "rank_of (level \<lparr>level = ''H1'', htext = ''Large'', page = 1, font_size = 20, is_bold = True, is_centered = False\<rparr>)
   \<le> rank_of (level \<lparr>level = ''H3'', htext = ''Small'', page = 1, font_size = 10, is_bold = True, is_centered = False\<rparr>)
   \<and> rank_of (level \<lparr>level = ''H2'', htext = ''Medium'', page = 1, font_size = 15, is_bold = True, is_centered = False\<rparr>)
   \<le> rank_of (level \<lparr>level = ''H3'', htext = ''Small'', page = 1, font_size = 10, is_bold = True, is_centered = False\<rparr>)"
  using classify_monotone_in_font_size [of three_sizes] unfolding three_sizes_classified
  by simp

lemma layout_success:
  assumes "fst (extract_layout_based fitz_open self path) = Inr r"
  shows "\<exists>d t hs cl. fitz_open path = Inr d \<and> d \<noteq> []
      \<and> extract_title (layout_self self d) (d ! 0) = Inr t
      \<and> headings_loop (layout_self self d) d 0 [] = Inr hs
      \<and> classify_headings hs = Inr cl
      \<and> r = \<lparr>title = t, outline = map to_entry cl\<rparr>"
  using assms
  by (auto simp: extract_layout_based_def layout_self_def Let_def
           split: sum.splits if_splits)

lemma rank_of_the: "level_order l \<noteq> None \<Longrightarrow> the (level_order l) = rank_of l"
  by (auto simp: rank_of_def)

lemma classify_headings_sorted:
  assumes "classify_headings hs = Inr out"
  shows "sorted (map (\<lambda>h. (page h, rank_of (level h))) out)
         \<and> (\<forall>h \<in> set out. level h = ''H1'' \<or> level h = ''H2'' \<or> level h = ''H3'')"
proof (cases "hs = []")
  case True
  with assms show ?thesis by (simp add: classify_headings_def)
next
  case False
  let ?k = "\<lambda>h. (page h, the (level_order (level h)))"
  let ?lv = "map (assign_level hs) (py_sorted_reverse font_size hs)"
  from assms classify_headings_eq [OF False] have out: "out = sort_key ?k ?lv" by simp
  have lv: "\<forall>h \<in> set out. level h = ''H1'' \<or> level h = ''H2'' \<or> level h = ''H3''"
    unfolding out using assign_level_cases [of hs] by auto
  then have "\<forall>h \<in> set out. ?k h = (page h, rank_of (level h))"
    by (auto simp: rank_of_def level_order_def)
  then have "map (\<lambda>h. (page h, rank_of (level h))) out = map ?k out"
    by (intro map_cong) auto
  moreover have "sorted (map ?k out)" unfolding out by (rule sorted_sort_key)
  ultimately have "sorted (map (\<lambda>h. (page h, rank_of (level h))) out)" by (simp only:)
  with lv show ?thesis by blast
qed

section \<open>Order of the layout outline\<close>

text \<open>
  Claim C7. The outline of the layout pipeline is ordered by ascending page number and,
  within a page, by level with \<open>H1\<close> before \<open>H2\<close> before \<open>H3\<close>; the
  position of a span on its page plays no part. Every entry has one of the three levels.
\<close>

theorem layout_outline_ordered:
  "fst (extract_layout_based fitz_open self path) = Inr r \<Longrightarrow>
     sorted_wrt entry_before (outline r)
     \<and> (\<forall>e \<in> set (outline r). e_level e = ''H1'' \<or> e_level e = ''H2'' \<or> e_level e = ''H3'')"
proof -
  assume "fst (extract_layout_based fitz_open self path) = Inr r"
  from layout_success [OF this] obtain hs cl
    where cl: "classify_headings hs = Inr cl" and r: "outline r = map to_entry cl" by auto
  from classify_headings_sorted [OF cl]
  have s: "sorted (map (\<lambda>h. (page h, rank_of (level h))) cl)"
    and l: "\<forall>h \<in> set cl. level h = ''H1'' \<or> level h = ''H2'' \<or> level h = ''H3''" by auto
  from s have "sorted_wrt (\<lambda>a b. (page a, rank_of (level a)) \<le> (page b, rank_of (level b))) cl"
    by (simp add: sorted_map)
  then have "sorted_wrt (\<lambda>a b. entry_before (to_entry a) (to_entry b)) cl"
    by (rule sorted_wrt_mono_rel [rotated]) (auto simp: entry_before_def to_entry_def)
  then have "sorted_wrt entry_before (outline r)" by (simp add: r sorted_wrt_map)
  moreover from l have "\<forall>e \<in> set (outline r). e_level e = ''H1'' \<or> e_level e = ''H2'' \<or> e_level e = ''H3''"
    by (auto simp: r to_entry_def)
  ultimately show ?thesis by simp
qed

lemma report_layout:
  "fst (extract_layout_based report_open init ''report.pdf'') =
     Inr \<lparr>title = ''Untitled Document'', outline =
       [\<lparr>e_level = ''H1'', e_text = ''Big heading'', e_page = 1\<rparr>,
        \<lparr>e_level = ''H3'', e_text = ''Small print'', e_page = 1\<rparr>,
        \<lparr>e_level = ''H2'', e_text = ''Middle heading'', e_page = 2\<rparr>]\<rparr>"
  by code_simp

theorem layout_outline_ordered_witness:
  "sorted_wrt entry_before
     [\<lparr>e_level = ''H1'', e_text = ''Big heading'', e_page = 1\<rparr>,
      \<lparr>e_level = ''H3'', e_text = ''Small print'', e_page = 1\<rparr>,
      \<lparr>e_level = ''H2'', e_text = ''Middle heading'', e_page = 2\<rparr>]"
  using layout_outline_ordered [OF report_layout] by simp

section \<open>Title of the layout pipeline\<close>

lemma title_loop:
  "foldl (title_step self) acc sps =
     acc @ map (\<lambda>sp. (strip (span_text sp), span_size sp))
             (filter (is_title_candidate (page_width self)) sps)"
  by (induction sps arbitrary: acc) (auto simp: title_step_def is_title_candidate_def Let_def)

lemma sorted_le_last: "sorted zs \<Longrightarrow> z \<in> set zs \<Longrightarrow> z \<le> last zs"
  by (induction zs) (auto)

lemma last_filter_keep: "xs \<noteq> [] \<Longrightarrow> P (last xs) \<Longrightarrow> last (filter P xs) = last xs"
  by (cases xs rule: rev_cases) auto

lemma py_sorted_reverse_hd:
  fixes f :: "'a \<Rightarrow> 'k::linorder"
  assumes "xs \<noteq> []"
  shows "hd (py_sorted_reverse f xs) = hd (filter (\<lambda>x. f x = Max (f ` set xs)) xs)"
proof -
  let ?ys = "sort_key f (rev xs)"
  have "length ?ys = length xs" by simp
  with assms have ne: "?ys \<noteq> []" by (metis length_0_conv)
  have st: "set ?ys = set xs" by simp
  have "\<forall>y \<in> set ?ys. f y \<le> f (last ?ys)"
  proof
    fix y assume "y \<in> set ?ys"
    then have "f y \<in> set (map f ?ys)" by simp
    moreover have "sorted (map f ?ys)" by (rule sorted_sort_key)
    ultimately have "f y \<le> last (map f ?ys)" by (rule sorted_le_last [rotated])
    then show "f y \<le> f (last ?ys)" using ne by (simp add: last_map)
  qed
  moreover have "last ?ys \<in> set ?ys" using ne by (rule last_in_set)
  ultimately have "Max (f ` set ?ys) = f (last ?ys)"
    by (intro Max_eqI) auto
  then have mx: "Max (f ` set xs) = f (last ?ys)" by (simp only: st)
  let ?P = "\<lambda>x. f x = Max (f ` set xs)"
  have "hd (py_sorted_reverse f xs) = last ?ys"
    using ne by (simp add: py_sorted_reverse_def hd_rev)
  also have "\<dots> = last (filter ?P ?ys)"
    using ne mx by (simp add: last_filter_keep)
  also have "filter ?P ?ys = filter ?P (rev xs)" by (rule sort_key_stable)
  also have "last (filter ?P (rev xs)) = hd (filter ?P xs)"
    by (simp add: rev_filter [symmetric] last_rev)
  finally show ?thesis .
qed

lemma hd_largest:
  fixes g :: "span \<Rightarrow> string \<times> rat"
  assumes "c \<noteq> []" and "\<And>sp. snd (g sp) = span_size sp"
  shows "hd (py_sorted_reverse snd (map g c)) = g (largest_first c)"
proof -
  let ?M = "Max (span_size ` set c)"
  have im: "snd ` set (map g c) = span_size ` set c"
    using assms(2) by (simp add: image_image)
  have fl: "filter (\<lambda>x. snd x = ?M) (map g c) = map g (filter (\<lambda>sp. span_size sp = ?M) c)"
    using assms(2) by (simp add: filter_map comp_def)
  have "?M \<in> span_size ` set c" using assms(1) by (intro Max_in) auto
  then obtain sp where "sp \<in> set c" "span_size sp = ?M" by auto
  then have ne: "filter (\<lambda>sp. span_size sp = ?M) c \<noteq> []"
    by (auto simp: filter_empty_conv)
  have "map g c \<noteq> []" using assms(1) by simp
  from py_sorted_reverse_hd [OF this, of snd]
  have "hd (py_sorted_reverse snd (map g c)) = hd (filter (\<lambda>x. snd x = ?M) (map g c))"
    unfolding im .
  also have "\<dots> = g (largest_first c)"
    unfolding fl largest_first_def using ne by (simp add: hd_map)
  finally show ?thesis .
qed

lemma extract_title_eq:
  assumes "get_text pg = Inr blocks"
  shows "extract_title self pg =
     Inr (let cands = filter (is_title_candidate (page_width self)) (spans_of blocks)
          in if cands = [] then ''Untitled Document''
             else strip (span_text (largest_first cands)))"
proof -
  let ?g = "\<lambda>sp. (strip (span_text sp), span_size sp)"
  define c where "c = filter (is_title_candidate (page_width self)) (spans_of blocks)"
  have tc: "foldl (title_step self) [] (spans_of blocks) = map ?g c"
    using title_loop [of self "[]"] by (simp add: c_def)
  show ?thesis
  proof (cases "c = []")
    case True
    with assms tc show ?thesis by (simp add: extract_title_def c_def [symmetric])
  next
    case False
    from hd_largest [OF False, of ?g]
    have "fst (hd (py_sorted_reverse snd (map ?g c))) = strip (span_text (largest_first c))"
      by simp
    with assms tc False show ?thesis
      by (simp add: extract_title_def Let_def c_def [symmetric])
  qed
qed

text \<open>
  Claim C3, as the code has it. A title candidate is a span of the first page whose
  trimmed text is not empty, whose font size is above 14, and that is bold and centered on
  the width of the first page. The title of the layout pipeline is the trimmed text of the
  candidate with the largest font size, the first one met among those of that size; with
  no candidate the title is \<open>Untitled Document\<close>.
\<close>

theorem title_is_largest_candidate:
  "fst (extract_layout_based fitz_open self path) = Inr r \<Longrightarrow>
   fitz_open path = Inr d \<Longrightarrow> get_text (d ! 0) = Inr blocks \<Longrightarrow>
     title r =
       (let cands = filter (is_title_candidate (rect_width (d ! 0))) (spans_of blocks)
        in if cands = [] then ''Untitled Document''
           else strip (span_text (largest_first cands)))"
proof -
  assume ok: "fst (extract_layout_based fitz_open self path) = Inr r"
    and d: "fitz_open path = Inr d" and b: "get_text (d ! 0) = Inr blocks"
  from layout_success [OF ok] d
  have "extract_title (layout_self self d) (d ! 0) = Inr (title r)" by auto
  moreover have "page_width (layout_self self d) = rect_width (d ! 0)"
    by (simp add: layout_self_def)
  ultimately show ?thesis using extract_title_eq [OF b, of "layout_self self d"] by simp
qed

lemma cover_layout:
  "fst (extract_layout_based cover_open init ''cover.pdf'') =
     Inr \<lparr>title = ''Annual Report'', outline =
       [\<lparr>e_level = ''H1'', e_text = ''Annual Report'', e_page = 1\<rparr>,
        \<lparr>e_level = ''H1'', e_text = ''Second Title'', e_page = 1\<rparr>]\<rparr>"
  by code_simp

theorem title_is_largest_candidate_witness:
  "(let cands = filter (is_title_candidate 600) (spans_of cover_blocks)
    in if cands = [] then ''Untitled Document''
       else strip (span_text (largest_first cands))) = ''Annual Report''"
proof -
  have d: "cover_open ''cover.pdf'' = Inr cover_doc" by (simp add: cover_open_def)
  have b: "get_text (cover_doc ! 0) = Inr cover_blocks" by (simp add: cover_doc_def)
  have w: "rect_width (cover_doc ! 0) = 600" by (simp add: cover_doc_def)
  from title_is_largest_candidate [OF cover_layout d b] show ?thesis
    unfolding w by simp
qed

text \<open>
  A span that is bold, centered and larger than 14 but holds only white space is no
  candidate: on the page below the largest such span is blank, and the title is the text
  of a smaller span.
\<close>

theorem stated_title_counterexample:
  "fst (extract_layout_based cover_open init ''cover.pdf'') =
     Inr \<lparr>title = ''Annual Report'', outline =
       [\<lparr>e_level = ''H1'', e_text = ''Annual Report'', e_page = 1\<rparr>,
        \<lparr>e_level = ''H1'', e_text = ''Second Title'', e_page = 1\<rparr>]\<rparr>
   \<and> largest_first (filter (stated_title_candidate 600) (spans_of cover_blocks)) = blank_span
   \<and> span_text blank_span \<noteq> ''Annual Report''"
proof -
  have "largest_first (filter (stated_title_candidate 600) (spans_of cover_blocks)) = blank_span"
    by code_simp
  moreover have "span_text blank_span \<noteq> ''Annual Report''" by (simp add: blank_span_def)
  ultimately show ?thesis using cover_layout by simp
qed

section \<open>Heading candidates of the layout pipeline\<close>

lemma heading_step_keeps:
  "heading_step self n hs sp =
     (if keeps (page_width self) sp then hs @ [mk_heading self n sp] else hs)"
  by (auto simp: heading_step_def keeps_def mk_heading_def Let_def)

lemma heading_loop_spans:
  "foldl (heading_step self n) acc sps =
     acc @ map (mk_heading self n) (filter (keeps (page_width self)) sps)"
  by (induction sps arbitrary: acc) (simp_all add: heading_step_keeps)

lemma headings_loop_texts:
  "headings_loop self pgs n acc = Inr hs \<Longrightarrow>
     map (\<lambda>h. (htext h, page h)) hs =
       map (\<lambda>h. (htext h, page h)) acc
       @ concat (map (\<lambda>(i, pg). kept_on_page (page_width self) (i + 1) pg) (enumerate n pgs))"
proof (induction pgs arbitrary: n acc)
  case Nil
  then show ?case by simp
next
  case (Cons pg pgs)
  from Cons.prems obtain blocks where b: "get_text pg = Inr blocks"
    by (auto simp: extract_headings_from_page_def split: sum.splits)
  let ?ph = "map (mk_heading self (n + 1)) (filter (keeps (page_width self)) (spans_of blocks))"
  have "extract_headings_from_page self pg (n + 1) = Inr ?ph"
    using b heading_loop_spans [of self "n + 1" "[]"] by (simp add: extract_headings_from_page_def)
  with Cons.prems have "headings_loop self pgs (n + 1) (acc @ ?ph) = Inr hs" by simp
  from Cons.IH [OF this] b show ?case
    by (simp add: kept_on_page_def mk_heading_def comp_def)
qed

lemma classify_headings_mset:
  assumes "classify_headings hs = Inr cl"
  shows "mset (map unlevel cl) = mset (map unlevel hs)"
proof (cases "hs = []")
  case True
  with assms show ?thesis by (simp add: classify_headings_def)
next
  case False
  from assms classify_headings_eq [OF False] show ?thesis
    by (auto simp: multiset.map_comp comp_def)
qed

lemma text_page_unlevel: "(\<lambda>h. (htext h, page h)) \<circ> unlevel = (\<lambda>h. (htext h, page h))"
  by (auto simp: unlevel_def)

text \<open>
  Claim C1, as the code has it. On every page of the document the candidate test keeps a
  span, whose trimmed text has between 3 and 100 characters, if and only if its font size
  is at least 10 and it is bold or centered; the centering test takes the width of the
  first page of the document for every page, both for the centre and for the tolerance of
  a tenth of the width. The texts and pages of the outline are those of the spans kept.
\<close>

theorem candidates_use_first_page_width:
  "fst (extract_layout_based fitz_open self path) = Inr r \<Longrightarrow> fitz_open path = Inr d \<Longrightarrow>
     heading_step (layout_self self d) n hs sp =
       (if keeps (rect_width (d ! 0)) sp then hs @ [mk_heading (layout_self self d) n sp] else hs)
     \<and> mset (map (\<lambda>e. (e_text e, e_page e)) (outline r)) =
         mset (concat (map (\<lambda>(i, pg). kept_on_page (rect_width (d ! 0)) (i + 1) pg)
                        (enumerate 0 d)))"
proof -
  assume ok: "fst (extract_layout_based fitz_open self path) = Inr r"
    and d: "fitz_open path = Inr d"
  have w: "page_width (layout_self self d) = rect_width (d ! 0)"
    by (simp add: layout_self_def)
  from layout_success [OF ok] d obtain cands cl
    where lp: "headings_loop (layout_self self d) d 0 [] = Inr cands"
      and cl: "classify_headings cands = Inr cl"
      and r: "outline r = map to_entry cl" by auto
  let ?tp = "\<lambda>h. (htext h, page h)"
  have "map (\<lambda>e. (e_text e, e_page e)) (outline r) = map ?tp cl"
    by (simp add: r to_entry_def comp_def)
  then have "mset (map (\<lambda>e. (e_text e, e_page e)) (outline r)) = image_mset ?tp (mset cl)"
    by simp
  also have "\<dots> = image_mset (?tp \<circ> unlevel) (mset cl)" by (simp only: text_page_unlevel)
  also have "\<dots> = image_mset ?tp (mset (map unlevel cl))"
    by (simp add: multiset.map_comp)
  also have "\<dots> = image_mset ?tp (mset (map unlevel cands))"
    by (simp only: classify_headings_mset [OF cl])
  also have "\<dots> = image_mset (?tp \<circ> unlevel) (mset cands)"
    by (simp add: multiset.map_comp)
  also have "\<dots> = mset (map ?tp cands)" by (simp only: text_page_unlevel mset_map)
  finally have "mset (map (\<lambda>e. (e_text e, e_page e)) (outline r)) = mset (map ?tp cands)" .
  with headings_loop_texts [OF lp] w heading_step_keeps [of "layout_self self d" n hs sp]
  show ?thesis by simp
qed

lemma wide_layout:
  "fst (extract_layout_based wide_open init ''wide.pdf'') =
     Inr \<lparr>title = ''Untitled Document'', outline = []\<rparr>"
  by code_simp

theorem candidates_use_first_page_width_witness:
  "heading_step (layout_self init wide_doc) 2 [] wide_span = []
   \<and> concat (map (\<lambda>(i, pg). kept_on_page 600 (i + 1) pg) (enumerate 0 wide_doc)) = []"
proof -
  have d: "wide_open ''wide.pdf'' = Inr wide_doc" by (simp add: wide_open_def)
  have w: "rect_width (wide_doc ! 0) = 600" by (simp add: wide_doc_def)
  have k: "\<not> keeps 600 wide_span" by code_simp
  from candidates_use_first_page_width [OF wide_layout d, of 2 "[]" wide_span] k
  show ?thesis unfolding w by simp
qed

text \<open>
  The second page below is wider than the first. Its span is centered on its own page,
  not bold and of size 12, so the test with the width of that page keeps it; the pipeline
  drops it.
\<close>

theorem page_width_counterexample:
  "get_text (wide_doc ! 1) = Inr [Some [[wide_span]]]
   \<and> keeps (rect_width (wide_doc ! 1)) wide_span
   \<and> fst (extract_layout_based wide_open init ''wide.pdf'') =
       Inr \<lparr>title = ''Untitled Document'', outline = []\<rparr>"
proof -
  have "get_text (wide_doc ! 1) = Inr [Some [[wide_span]]]" by (simp add: wide_doc_def)
  moreover have "keeps (rect_width (wide_doc ! 1)) wide_span" by code_simp
  ultimately show ?thesis using wide_layout by simp
qed

section \<open>Order of the OCR outline\<close>

lemma text_loop:
  "foldl (text_step n) acc lns =
     acc @ map (\<lambda>l. \<lparr>li_text = l, li_page = n + 1\<rparr>)
             (filter (\<lambda>l. length l > 2) (map strip lns))"
  by (induction lns arbitrary: acc) (auto simp: text_step_def Let_def)

lemma detect_loop:
  "foldl detect_step acc lis =
     acc @ map (\<lambda>li. ocr_entry (li_page li) (li_text li))
             (filter (\<lambda>li. looks_like_heading (li_text li)) lis)"
  by (induction lis arbitrary: acc) (auto simp: detect_step_def ocr_entry_def Let_def)

lemma detect_append:
  "detect_headings_from_ocr (xs @ ys) = detect_headings_from_ocr xs @ detect_headings_from_ocr ys"
  by (simp add: detect_headings_from_ocr_def detect_loop)

lemma detect_page:
  "ocr pg = OcrText ocr_text \<Longrightarrow>
   detect_headings_from_ocr (foldl (text_step n) [] (split_on CHR 0x0A ocr_text))
     = page_entries (n + 1) pg"
  by (simp add: detect_headings_from_ocr_def detect_loop text_loop page_entries_def
        filter_map comp_def)

lemma ocr_loop_outline:
  "ocr_loop pgs n all_text t = Inr (all_text', t') \<Longrightarrow>
     detect_headings_from_ocr all_text' =
       detect_headings_from_ocr all_text
       @ concat (map (\<lambda>(i, pg). page_entries (i + 1) pg) (enumerate n pgs))"
proof (induction pgs arbitrary: n all_text t)
  case Nil
  then show ?case by simp
next
  case (Cons pg pgs)
  show ?case
  proof (cases "ocr pg")
    case (RenderFails e)
    with Cons.prems show ?thesis by simp
  next
    case (OcrFails e)
    with Cons.prems have "ocr_loop pgs (n + 1) all_text t = Inr (all_text', t')" by simp
    from Cons.IH [OF this] OcrFails show ?thesis by (simp add: page_entries_def)
  next
    case (OcrText ocr_text)
    let ?lines = "split_on CHR 0x0A ocr_text"
    from Cons.prems OcrText obtain t2 where
      "ocr_loop pgs (n + 1) (foldl (text_step n) all_text ?lines) t2 = Inr (all_text', t')"
      by (simp add: Let_def)
    from Cons.IH [OF this]
    have "detect_headings_from_ocr all_text' =
        detect_headings_from_ocr (foldl (text_step n) all_text ?lines)
        @ concat (map (\<lambda>(i, pg). page_entries (i + 1) pg) (enumerate (Suc n) pgs))" by simp
    moreover have "foldl (text_step n) all_text ?lines = all_text @ foldl (text_step n) [] ?lines"
      by (simp add: text_loop)
    ultimately show ?thesis using detect_page [OF OcrText, of n]
      by (simp add: detect_append)
  qed
qed

lemma page_entries_page: "e \<in> set (page_entries n pg) \<Longrightarrow> e_page e = n"
  by (auto simp: page_entries_def ocr_entry_def split: ocr_outcome.splits)

lemma pages_from:
  "e \<in> set (concat (map (\<lambda>(i, pg). page_entries (i + 1) pg) (enumerate n pgs))) \<Longrightarrow> n < e_page e"
proof (induction pgs arbitrary: n)
  case Nil
  then show ?case by simp
next
  case (Cons pg pgs)
  then show ?case using page_entries_page [of e "n + 1" pg] by fastforce
qed

lemma pages_ascending:
  "sorted (map e_page (concat (map (\<lambda>(i, pg). page_entries (i + 1) pg) (enumerate n pgs))))"
proof (induction pgs arbitrary: n)
  case Nil
  then show ?case by simp
next
  case (Cons pg pgs)
  have a: "sorted (map e_page (page_entries (n + 1) pg))"
    using page_entries_page [of _ "n + 1" pg] by (simp add: sorted_wrt_iff_nth_less sorted_map)
  have b: "\<forall>x \<in> set (page_entries (n + 1) pg).
      \<forall>y \<in> set (concat (map (\<lambda>(i, pg). page_entries (i + 1) pg) (enumerate (Suc n) pgs))).
        e_page x \<le> e_page y"
    using page_entries_page [of _ "n + 1" pg] pages_from [of _ "Suc n" pgs] by fastforce
  from a b Cons.IH [of "Suc n"] show ?case by (simp add: sorted_append)
qed

text \<open>
  Claim C8. The outline of the OCR pipeline is in encounter order: the entries of the
  pages follow one another by ascending page number, and the entries of one page are its
  heading lines in the order of the recognised text. No sort by level takes place: an
  \<open>H3\<close> line that comes before an \<open>H1\<close> line on its page stays before it.
\<close>

theorem ocr_outline_in_encounter_order:
  "fst (extract_ocr_based fitz_open self path) = Inr r \<Longrightarrow> fitz_open path = Inr d \<Longrightarrow>
     outline r = concat (map (\<lambda>(i, pg). page_entries (i + 1) pg) (enumerate 0 d))
     \<and> sorted (map e_page (outline r))"
proof -
  assume ok: "fst (extract_ocr_based fitz_open self path) = Inr r"
    and d: "fitz_open path = Inr d"
  from ok d obtain all_text t where
    lp: "ocr_loop d 0 [] ''Untitled Document'' = Inr (all_text, t)"
    and r: "outline r = detect_headings_from_ocr all_text"
    by (auto simp: extract_ocr_based_def Let_def split: if_splits sum.splits prod.splits)
  from ocr_loop_outline [OF lp] r
  have "outline r = concat (map (\<lambda>(i, pg). page_entries (i + 1) pg) (enumerate 0 d))"
    by (simp add: detect_headings_from_ocr_def)
  with pages_ascending [of 0 d] show ?thesis by simp
qed

lemma notes_ocr:
  "fst (extract_ocr_based notes_open init ''notes.pdf'') =
     Inr \<lparr>title = ''Background Notes'', outline =
       [\<lparr>e_level = ''H3'', e_text = ''Background Notes'', e_page = 1\<rparr>,
        \<lparr>e_level = ''H1'', e_text = ''INTRODUCTION'', e_page = 1\<rparr>,
        \<lparr>e_level = ''H2'', e_text = ''1. Overview'', e_page = 3\<rparr>]\<rparr>"
  by code_simp

theorem ocr_outline_in_encounter_order_witness:
  "concat (map (\<lambda>(i, pg). page_entries (i + 1) pg) (enumerate 0 notes_doc)) =
     [\<lparr>e_level = ''H3'', e_text = ''Background Notes'', e_page = 1\<rparr>,
      \<lparr>e_level = ''H1'', e_text = ''INTRODUCTION'', e_page = 1\<rparr>,
      \<lparr>e_level = ''H2'', e_text = ''1. Overview'', e_page = 3\<rparr>]"
proof -
  have d: "notes_open ''notes.pdf'' = Inr notes_doc" by (simp add: notes_open_def)
  from ocr_outline_in_encounter_order [OF notes_ocr d] show ?thesis by simp
qed

section \<open>The matcher against the language of a pattern\<close>

text \<open>
  The language of a pattern is given by sets of strings, and the matcher by derivatives
  decides it: \<open>match_prefix\<close> holds when some prefix of the string is in the language,
  \<open>match_dollar\<close> when the string is, or the string without a last newline.
\<close>

lemma nil_in_conc: "[] \<in> conc A B \<longleftrightarrow> [] \<in> A \<and> [] \<in> B"
  by (auto simp: conc_def)

lemma nil_in_star: "[] \<in> star A"
proof -
  have "[] = concat [] \<and> set ([] :: string list) \<subseteq> A" by simp
  then show ?thesis unfolding star_def by blast
qed

lemma cons_in_conc:
  "c # s \<in> conc A B \<longleftrightarrow>
     ([] \<in> A \<and> c # s \<in> B) \<or> (\<exists>u v. s = u @ v \<and> c # u \<in> A \<and> v \<in> B)"
  by (auto simp: conc_def Cons_eq_append_conv)

lemma star_step: "w \<in> A \<Longrightarrow> v \<in> star A \<Longrightarrow> w @ v \<in> star A"
proof -
  assume w: "w \<in> A" and "v \<in> star A"
  then obtain ws where ws: "v = concat ws" "set ws \<subseteq> A" by (auto simp: star_def)
  with w have "w @ v = concat (w # ws) \<and> set (w # ws) \<subseteq> A" by simp
  then show ?thesis unfolding star_def by blast
qed

lemma concat_cons_split:
  "concat ws = c # s \<Longrightarrow> set ws \<subseteq> A \<Longrightarrow>
     \<exists>u v. s = u @ v \<and> c # u \<in> A \<and> v \<in> star A"
proof (induction ws)
  case Nil
  then show ?case by simp
next
  case (Cons w ws)
  show ?case
  proof (cases w)
    case Nil
    with Cons show ?thesis by simp
  next
    case (Cons x u)
    with Cons.prems have "x = c" "s = u @ concat ws" "c # u \<in> A" "set ws \<subseteq> A" by auto
    moreover from \<open>set ws \<subseteq> A\<close> have "concat ws \<in> star A" unfolding star_def by blast
    ultimately show ?thesis by blast
  qed
qed

lemma cons_in_star:
  "c # s \<in> star A \<longleftrightarrow> (\<exists>u v. s = u @ v \<and> c # u \<in> A \<and> v \<in> star A)"
proof
  assume "c # s \<in> star A"
  then obtain ws where "concat ws = c # s" "set ws \<subseteq> A" by (auto simp: star_def)
  then show "\<exists>u v. s = u @ v \<and> c # u \<in> A \<and> v \<in> star A" by (rule concat_cons_split)
next
  assume "\<exists>u v. s = u @ v \<and> c # u \<in> A \<and> v \<in> star A"
  then obtain u v where "s = u @ v" "c # u \<in> A" "v \<in> star A" by blast
  with star_step [of "c # u" A v] show "c # s \<in> star A" by simp
qed

lemma nullable_lang: "nullable r \<longleftrightarrow> [] \<in> lang r"
  by (induction r) (auto simp: nil_in_conc nil_in_star)

lemma deriv_lang: "s \<in> lang (deriv c r) \<longleftrightarrow> c # s \<in> lang r"
proof (induction r arbitrary: s)
  case (Seq r1 r2)
  have l: "s \<in> conc (lang (deriv c r1)) (lang r2) \<longleftrightarrow>
           (\<exists>u v. s = u @ v \<and> c # u \<in> lang r1 \<and> v \<in> lang r2)"
    using Seq.IH(1) by (auto simp: conc_def)
  show ?case by (simp add: l Seq.IH(2) cons_in_conc nullable_lang) blast
next
  case (Star r)
  have "s \<in> conc (lang (deriv c r)) (star (lang r)) \<longleftrightarrow>
           (\<exists>u v. s = u @ v \<and> c # u \<in> lang r \<and> v \<in> star (lang r))"
    using Star.IH by (auto simp: conc_def)
  then show ?case by (simp add: cons_in_star)
qed auto

lemma match_prefix_lang: "match_prefix r s \<longleftrightarrow> (\<exists>p q. s = p @ q \<and> p \<in> lang r)"
proof (induction s arbitrary: r)
  case Nil
  then show ?case by (simp add: nullable_lang)
next
  case (Cons c cs)
  have "(\<exists>p q. c # cs = p @ q \<and> p \<in> lang r) \<longleftrightarrow>
        [] \<in> lang r \<or> (\<exists>p q. cs = p @ q \<and> c # p \<in> lang r)"
    by (auto simp: Cons_eq_append_conv)
  with Cons show ?case by (simp add: nullable_lang deriv_lang)
qed

lemma match_dollar_lang:
  "match_dollar r s \<longleftrightarrow> s \<in> lang r \<or> (\<exists>p. s = p @ [CHR 0x0A] \<and> p \<in> lang r)"
proof (induction s arbitrary: r)
  case Nil
  then show ?case by (simp add: nullable_lang)
next
  case (Cons c cs)
  have "(\<exists>p. c # cs = p @ [CHR 0x0A] \<and> p \<in> lang r) \<longleftrightarrow>
        (cs = [] \<and> c = CHR 0x0A \<and> [] \<in> lang r) \<or> (\<exists>p. cs = p @ [CHR 0x0A] \<and> c # p \<in> lang r)"
    by (auto simp: Cons_eq_append_conv)
  with Cons show ?case by (auto simp: nullable_lang deriv_lang)
qed

section \<open>What the five patterns match\<close>

lemma mem_conc: "w \<in> conc A B \<longleftrightarrow> (\<exists>u v. w = u @ v \<and> u \<in> A \<and> v \<in> B)"
  by (auto simp: conc_def)

lemma star_chars: "s \<in> star {[c] | c. P c} \<longleftrightarrow> (\<forall>c \<in> set s. P c)"
proof
  assume "s \<in> star {[c] | c. P c}"
  then obtain ws where "s = concat ws" "set ws \<subseteq> {[c] | c. P c}" by (auto simp: star_def)
  then show "\<forall>c \<in> set s. P c"
    by (induction ws arbitrary: s) auto
next
  assume "\<forall>c \<in> set s. P c"
  then show "s \<in> star {[c] | c. P c}"
  proof (induction s)
    case Nil
    show ?case by (rule nil_in_star)
  next
    case (Cons c s)
    then have "[c] \<in> {[c] | c. P c}" "s \<in> star {[c] | c. P c}" by auto
    from star_step [OF this] show ?case by simp
  qed
qed

lemma cons_conc_chars:
  "s \<in> conc {[c] | c. P c} B \<longleftrightarrow> (\<exists>c v. s = c # v \<and> P c \<and> v \<in> B)"
proof
  assume "s \<in> conc {[c] | c. P c} B"
  then show "\<exists>c v. s = c # v \<and> P c \<and> v \<in> B" by (auto simp: conc_def)
next
  assume "\<exists>c v. s = c # v \<and> P c \<and> v \<in> B"
  then obtain c v where "s = [c] @ v" "[c] \<in> {[c] | c. P c}" "v \<in> B" by auto
  then show "s \<in> conc {[c] | c. P c} B" unfolding mem_conc by blast
qed

lemma plus_cls:
  "s \<in> lang (Plus (Cls as)) \<longleftrightarrow>
     s \<noteq> [] \<and> (\<forall>c \<in> set s. list_ex (\<lambda>a. atom_matches a c) as)"
  by (cases s) (auto simp: Plus_def cons_conc_chars star_chars)

lemma cls_digit: "list_ex (\<lambda>a. atom_matches a c) [Digit] = is_digit c"
  by simp

lemma cls_space: "list_ex (\<lambda>a. atom_matches a c) [Space] = is_space c"
  by simp

lemma cls_AZ: "list_ex (\<lambda>a. atom_matches a c) [Range CHR ''A'' CHR ''Z''] = in_AZ c"
  by (simp add: in_AZ_def)

lemma cls_az: "list_ex (\<lambda>a. atom_matches a c) [Range CHR ''a'' CHR ''z''] = in_az c"
  by (simp add: in_az_def)

lemma cls_AZ_space:
  "list_ex (\<lambda>a. atom_matches a c) [Range CHR ''A'' CHR ''Z'', Space] = (in_AZ c \<or> is_space c)"
  by (simp add: in_AZ_def)

lemma lang_digits: "s \<in> lang (Plus (Cls [Digit])) \<longleftrightarrow> purely_numeric s"
  unfolding plus_cls cls_digit by (simp add: purely_numeric_def list_all_iff)

lemma lang_spaces: "s \<in> lang (Plus (Cls [Space])) \<longleftrightarrow> s \<noteq> [] \<and> list_all is_space s"
  unfolding plus_cls cls_space by (simp add: list_all_iff)

lemma lang_upper: "lang upper_AZ = {[c] | c. in_AZ c}"
  unfolding upper_AZ_def lang.simps cls_AZ ..

lemma lang_lowers: "s \<in> lang (Plus lower_az) \<longleftrightarrow> s \<noteq> [] \<and> list_all in_az s"
  unfolding lower_az_def plus_cls cls_az by (simp add: list_all_iff)

lemma lang_dot: "lang (Cls [Lit CHR ''.'']) = {[c] | c. c = CHR ''.''}"
  by simp

lemma lang_capitalised:
  "s \<in> lang (Seq upper_AZ (Plus lower_az)) \<longleftrightarrow> capitalised_word s"
  unfolding lang.simps(5) lang_upper cons_conc_chars lang_lowers capitalised_word_def ..

lemma lang_all_caps:
  "s \<in> lang (fst pat_all_caps) \<longleftrightarrow> all_caps_with_spaces s"
  unfolding pat_all_caps_def fst_conv lang.simps(5) lang_upper cons_conc_chars plus_cls
    cls_AZ_space all_caps_with_spaces_def list_all_iff ..

lemma lang_numbered_body:
  "p \<in> lang (fst pat_numbered) \<longleftrightarrow>
     (\<exists>ds ws c. p = ds @ CHR ''.'' # ws @ [c] \<and> purely_numeric ds
        \<and> ws \<noteq> [] \<and> list_all is_space ws \<and> in_AZ c)"
proof -
  have a: "\<And>y. y \<in> conc (lang (Plus (Cls [Space]))) (lang upper_AZ) \<longleftrightarrow>
      (\<exists>ws c. y = ws @ [c] \<and> ws \<noteq> [] \<and> list_all is_space ws \<and> in_AZ c)"
    unfolding mem_conc lang_spaces lang_upper by blast
  have b: "\<And>x. x \<in> conc (lang (Cls [Lit CHR ''.''])) (conc (lang (Plus (Cls [Space]))) (lang upper_AZ)) \<longleftrightarrow>
      (\<exists>ws c. x = CHR ''.'' # ws @ [c] \<and> ws \<noteq> [] \<and> list_all is_space ws \<and> in_AZ c)"
    unfolding lang_dot cons_conc_chars a by blast
  show ?thesis
    unfolding pat_numbered_def fst_conv lang.simps(5) mem_conc [of p] lang_digits b by blast
qed

lemma lang_numbered:
  "(\<exists>p q. s = p @ q \<and> p \<in> lang (fst pat_numbered)) \<longleftrightarrow> numbered_heading s"
proof
  assume "\<exists>p q. s = p @ q \<and> p \<in> lang (fst pat_numbered)"
  then obtain q ds ws c where "s = (ds @ CHR ''.'' # ws @ [c]) @ q" "purely_numeric ds"
    "ws \<noteq> []" "list_all is_space ws" "in_AZ c"
    unfolding lang_numbered_body by blast
  then have "s = ds @ CHR ''.'' # ws @ c # q \<and> ds \<noteq> [] \<and> list_all is_digit ds
      \<and> ws \<noteq> [] \<and> list_all is_space ws \<and> in_AZ c"
    by (simp add: purely_numeric_def)
  then show "numbered_heading s" unfolding numbered_heading_def by blast
next
  assume "numbered_heading s"
  then obtain ds ws c rest where "s = ds @ CHR ''.'' # ws @ c # rest" "ds \<noteq> []"
    "list_all is_digit ds" "ws \<noteq> []" "list_all is_space ws" "in_AZ c"
    unfolding numbered_heading_def by blast
  then have "s = (ds @ CHR ''.'' # ws @ [c]) @ rest \<and> purely_numeric ds
      \<and> ws \<noteq> [] \<and> list_all is_space ws \<and> in_AZ c"
    by (simp add: purely_numeric_def)
  then show "\<exists>p q. s = p @ q \<and> p \<in> lang (fst pat_numbered)"
    unfolding lang_numbered_body by blast
qed

lemma lang_number_prefix_body:
  "p \<in> lang (fst pat_number_prefix) \<longleftrightarrow>
     (\<exists>ds ws. p = ds @ CHR ''.'' # ws \<and> purely_numeric ds \<and> ws \<noteq> [] \<and> list_all is_space ws)"
proof -
  have b: "\<And>x. x \<in> conc (lang (Cls [Lit CHR ''.''])) (lang (Plus (Cls [Space]))) \<longleftrightarrow>
      (\<exists>ws. x = CHR ''.'' # ws \<and> ws \<noteq> [] \<and> list_all is_space ws)"
    unfolding lang_dot cons_conc_chars lang_spaces by blast
  show ?thesis
    unfolding pat_number_prefix_def fst_conv lang.simps(5) mem_conc [of p] lang_digits b by blast
qed

lemma lang_number_prefix:
  "(\<exists>p q. s = p @ q \<and> p \<in> lang (fst pat_number_prefix)) \<longleftrightarrow> number_prefix s"
proof
  assume "\<exists>p q. s = p @ q \<and> p \<in> lang (fst pat_number_prefix)"
  then obtain q ds ws where "s = (ds @ CHR ''.'' # ws) @ q" "purely_numeric ds"
    "ws \<noteq> []" "list_all is_space ws"
    unfolding lang_number_prefix_body by blast
  then have "s = ds @ CHR ''.'' # ws @ q \<and> ds \<noteq> [] \<and> list_all is_digit ds
      \<and> ws \<noteq> [] \<and> list_all is_space ws"
    by (simp add: purely_numeric_def)
  then show "number_prefix s" unfolding number_prefix_def by blast
next
  assume "number_prefix s"
  then obtain ds ws rest where "s = ds @ CHR ''.'' # ws @ rest" "ds \<noteq> []"
    "list_all is_digit ds" "ws \<noteq> []" "list_all is_space ws"
    unfolding number_prefix_def by blast
  then have "s = (ds @ CHR ''.'' # ws) @ rest \<and> purely_numeric ds
      \<and> ws \<noteq> [] \<and> list_all is_space ws"
    by (simp add: purely_numeric_def)
  then show "\<exists>p q. s = p @ q \<and> p \<in> lang (fst pat_number_prefix)"
    unfolding lang_number_prefix_body by blast
qed

lemma lang_title_case:
  "s \<in> lang (fst pat_title_case) \<longleftrightarrow> title_case_words s"
proof -
  let ?word = "Seq upper_AZ (Plus lower_az)"
  let ?more = "Seq (Plus (Cls [Space])) ?word"
  have sw: "\<And>x. x \<in> lang ?more \<longleftrightarrow> spaced_word x"
    unfolding lang.simps(5) [of "Plus (Cls [Space])"] mem_conc lang_spaces
      lang_capitalised spaced_word_def by blast
  have st: "\<And>v. v \<in> lang (Star ?more) \<longleftrightarrow>
      (\<exists>ws. v = concat ws \<and> (\<forall>x \<in> set ws. spaced_word x))"
    unfolding lang.simps(6) star_def using sw by blast
  have "lang (fst pat_title_case) = conc (lang upper_AZ) (conc (lang (Plus lower_az)) (lang (Star ?more)))"
    by (simp add: pat_title_case_def)
  also have "\<dots> = conc (lang ?word) (lang (Star ?more))"
    unfolding lang.simps(5) [of upper_AZ] by (auto simp: mem_conc) (metis append.assoc)+
  finally have "s \<in> lang (fst pat_title_case) \<longleftrightarrow>
      (\<exists>u v. s = u @ v \<and> u \<in> lang ?word \<and> v \<in> lang (Star ?more))"
    by (simp only: mem_conc)
  then show ?thesis
    unfolding lang_capitalised st title_case_words_def by blast
qed

section \<open>Heading test and classification of OCR lines\<close>

lemma newline_is_space: "is_space (CHR 0x0A)"
  by (simp add: is_space_def)

lemma strip_last: "strip l \<noteq> [] \<Longrightarrow> \<not> is_space (last (strip l))"
proof -
  let ?ys = "dropWhile is_space (rev (dropWhile is_space l))"
  assume "strip l \<noteq> []"
  then have ne: "?ys \<noteq> []" by (simp add: strip_def)
  then have "\<not> is_space (hd ?ys)" by (rule hd_dropWhile)
  moreover have "last (strip l) = hd ?ys" using ne by (simp add: strip_def last_rev)
  ultimately show ?thesis by simp
qed

lemma strip_no_newline: "strip l \<noteq> p @ [CHR 0x0A]"
proof
  assume a: "strip l = p @ [CHR 0x0A]"
  then have "strip l \<noteq> []" by simp
  from strip_last [OF this] a show False by (simp add: newline_is_space)
qed

lemma match_dollar_strip: "match_dollar r (strip l) \<longleftrightarrow> strip l \<in> lang r"
  by (simp add: match_dollar_lang strip_no_newline)

lemma match_just_numbers: "re_match pat_just_numbers (strip l) \<longleftrightarrow> purely_numeric (strip l)"
  by (simp add: pat_just_numbers_def match_dollar_strip lang_digits)

lemma match_all_caps: "re_match pat_all_caps (strip l) \<longleftrightarrow> all_caps_with_spaces (strip l)"
proof -
  have "re_match pat_all_caps (strip l) = match_dollar (fst pat_all_caps) (strip l)"
    by (simp add: pat_all_caps_def)
  then show ?thesis by (simp only: match_dollar_strip lang_all_caps)
qed

lemma match_title_case: "re_match pat_title_case (strip l) \<longleftrightarrow> title_case_words (strip l)"
proof -
  have "re_match pat_title_case (strip l) = match_dollar (fst pat_title_case) (strip l)"
    by (simp add: pat_title_case_def)
  then show ?thesis by (simp only: match_dollar_strip lang_title_case)
qed

lemma match_numbered: "re_match pat_numbered t \<longleftrightarrow> numbered_heading t"
proof -
  have "re_match pat_numbered t = match_prefix (fst pat_numbered) t"
    by (simp add: pat_numbered_def)
  then show ?thesis by (simp only: match_prefix_lang lang_numbered)
qed

lemma match_number_prefix: "re_match pat_number_prefix t \<longleftrightarrow> number_prefix t"
proof -
  have "re_match pat_number_prefix t = match_prefix (fst pat_number_prefix) t"
    by (simp add: pat_number_prefix_def)
  then show ?thesis by (simp only: match_prefix_lang lang_number_prefix)
qed

lemma AZ_not_digit: "in_AZ c \<Longrightarrow> \<not> is_digit c"
  by (simp add: in_AZ_def is_digit_def)

lemma number_prefix_hd: "number_prefix t \<Longrightarrow> t \<noteq> [] \<and> is_digit (hd t)"
  by (auto simp: number_prefix_def hd_append list_all_iff)

lemma all_caps_hd: "all_caps_with_spaces t \<Longrightarrow> in_AZ (hd t)"
  by (auto simp: all_caps_with_spaces_def)

lemma title_case_hd: "title_case_words t \<Longrightarrow> in_AZ (hd t)"
  by (auto simp: title_case_words_def capitalised_word_def)

lemma numbered_is_prefix: "numbered_heading t \<Longrightarrow> number_prefix t"
  unfolding numbered_heading_def number_prefix_def by blast

lemma accepted_number_prefix:
  assumes "all_caps_with_spaces t \<or> numbered_heading t \<or> title_case_words t"
  shows "number_prefix t \<longleftrightarrow> numbered_heading t"
proof
  assume np: "number_prefix t"
  then have "\<not> in_AZ (hd t)" using number_prefix_hd AZ_not_digit by blast
  with assms all_caps_hd title_case_hd show "numbered_heading t" by blast
qed (rule numbered_is_prefix)

lemma looks_like_heading_strip:
  "looks_like_heading (strip l) \<longleftrightarrow>
     \<not> (purely_numeric (strip l) \<or> length (strip l) < 3 \<or> length (strip l) > 80
        \<or> lower (strip l) \<in> {''page'', ''continued'', ''...''})
     \<and> (all_caps_with_spaces (strip l) \<or> numbered_heading (strip l) \<or> title_case_words (strip l))"
proof -
  have "list_ex (\<lambda>pattern. re_match pattern (strip l)) heading_patterns \<longleftrightarrow>
      all_caps_with_spaces (strip l) \<or> numbered_heading (strip l) \<or> title_case_words (strip l)"
    by (simp add: heading_patterns_def match_all_caps match_numbered match_title_case)
  then show ?thesis
    unfolding looks_like_heading_def match_just_numbers by auto
qed

text \<open>
  Claim C6. Let \<open>t\<close> be an OCR line as the pipeline passes it on, which is trimmed.
  The heading test rejects \<open>t\<close> when it is purely numeric, shorter than 3 or longer
  than 80 characters, or equal up to case to \<open>page\<close>, \<open>continued\<close> or \<open>...\<close>;
  otherwise it accepts \<open>t\<close> if and only if \<open>t\<close> is all uppercase letters with
  spaces, a numbered heading (digits, a dot, white space, a capital letter) or a sequence
  of Title-Case words. An accepted line is \<open>H1\<close> when it is all-uppercase (in the
  sense of \<open>str.isupper\<close>) and shorter than 30 characters, else \<open>H2\<close> when it is a
  numbered heading, else \<open>H3\<close>.
\<close>

theorem ocr_heading_rules:
  "t = strip l \<Longrightarrow>
     (looks_like_heading t \<longleftrightarrow>
        \<not> (purely_numeric t \<or> length t < 3 \<or> length t > 80
           \<or> lower t \<in> {''page'', ''continued'', ''...''})
        \<and> (all_caps_with_spaces t \<or> numbered_heading t \<or> title_case_words t))
     \<and> (looks_like_heading t \<longrightarrow>
          classify_ocr_heading t =
            (if isupper t \<and> length t < 30 then ''H1''
             else if numbered_heading t then ''H2'' else ''H3''))"
proof -
  assume t: "t = strip l"
  have a: "looks_like_heading t \<longleftrightarrow>
        \<not> (purely_numeric t \<or> length t < 3 \<or> length t > 80
           \<or> lower t \<in> {''page'', ''continued'', ''...''})
        \<and> (all_caps_with_spaces t \<or> numbered_heading t \<or> title_case_words t)"
    unfolding t by (rule looks_like_heading_strip)
  have "classify_ocr_heading t =
            (if isupper t \<and> length t < 30 then ''H1''
             else if numbered_heading t then ''H2'' else ''H3'')" if "looks_like_heading t"
  proof -
    from that a have "all_caps_with_spaces t \<or> numbered_heading t \<or> title_case_words t" by simp
    from accepted_number_prefix [OF this] show ?thesis
      by (simp add: classify_ocr_heading_def match_number_prefix)
  qed
  with a show ?thesis by blast
qed

lemma overview_facts:
  "strip ''1. Overview'' = ''1. Overview'' \<and> looks_like_heading ''1. Overview''
   \<and> classify_ocr_heading ''1. Overview'' = ''H2'' \<and> \<not> isupper ''1. Overview''"
  by code_simp

lemma introduction_facts:
  "strip ''  INTRODUCTION '' = ''INTRODUCTION'' \<and> looks_like_heading ''INTRODUCTION''
   \<and> isupper ''INTRODUCTION''"
  by code_simp

lemma fortytwo_facts: "strip ''42'' = ''42'' \<and> purely_numeric ''42''"
  by code_simp

theorem ocr_heading_rules_witness:
  "numbered_heading ''1. Overview'' \<and> classify_ocr_heading ''1. Overview'' = ''H2''
   \<and> classify_ocr_heading ''INTRODUCTION'' = ''H1''
   \<and> \<not> looks_like_heading ''42''"
proof -
  from ocr_heading_rules [of "''1. Overview''" "''1. Overview''"] overview_facts
  have 1: "numbered_heading ''1. Overview'' \<and> classify_ocr_heading ''1. Overview'' = ''H2''"
    by (simp split: if_splits)
  from ocr_heading_rules [of "''INTRODUCTION''" "''  INTRODUCTION ''"] introduction_facts
  have 2: "classify_ocr_heading ''INTRODUCTION'' = ''H1''" by simp
  from ocr_heading_rules [of "''42''" "''42''"] fortytwo_facts
  have 3: "\<not> looks_like_heading ''42''" by simp
  from 1 2 3 show ?thesis by simp
qed

end
